theory Spec2Isabelle
  imports Main
begin

section \<open>Python values and dictionaries\<close>

text \<open>
  The query classes of \<^verbatim>\<open>cbc_sdk/endpoint_standard/base.py\<close> are dynamically typed.
  The values that reach them in the operations modelled here are \<^verbatim>\<open>None\<close>, booleans,
  integers and strings.
\<close>

datatype pyval = PNone | PBool bool | PInt int | PStr string

text \<open>Python truthiness, as tested by \<^verbatim>\<open>if start:\<close>.\<close>

fun truthy :: "pyval \<Rightarrow> bool" where
  "truthy PNone = False"
| "truthy (PBool b) = b"
| "truthy (PInt i) = (i \<noteq> 0)"
| "truthy (PStr s) = (s \<noteq> [])"

text \<open>\<^verbatim>\<open>isinstance(v, str)\<close>.\<close>

fun is_str :: "pyval \<Rightarrow> bool" where
  "is_str (PStr s) = True"
| "is_str v = False"

text \<open>
  A Python \<^verbatim>\<open>dict\<close> with string keys: an association list in insertion order with
  one entry per key. \<open>dict_set k v d\<close> is \<^verbatim>\<open>d[k] = v\<close>: an existing key keeps its
  position, a new one goes to the end.
\<close>

type_synonym pydict = "(string \<times> pyval) list"

fun dict_set :: "string \<Rightarrow> pyval \<Rightarrow> pydict \<Rightarrow> pydict" where
  "dict_set k v [] = [(k, v)]"
| "dict_set k v ((k', v') # d) =
     (if k' = k then (k, v) # d else (k', v') # dict_set k v d)"

definition dict_get :: "pydict \<Rightarrow> string \<Rightarrow> pyval option" where
  "dict_get d k = map_of d k"

text \<open>\<^verbatim>\<open>d.get(k, default)\<close> on a parsed JSON object whose key may be absent.\<close>

definition get_default :: "'a option \<Rightarrow> 'a \<Rightarrow> 'a" where
  "get_default field dflt = (case field of None \<Rightarrow> dflt | Some v \<Rightarrow> v)"

section \<open>Errors\<close>

text \<open>
  Every \<^verbatim>\<open>raise\<close> of the module is a value. \<open>ApiError\<close> is
  \<^verbatim>\<open>cbc_sdk.errors.ApiError\<close>, the usage error of the query layer; its argument names
  the raise site. The module imports only \<^verbatim>\<open>ApiError\<close> and \<^verbatim>\<open>ServerError\<close> from
  \<^verbatim>\<open>cbc_sdk.errors\<close>, so the name \<^verbatim>\<open>TimeoutError\<close> in
  \<^verbatim>\<open>raise TimeoutError(message=...)\<close> is Python's builtin class, which accepts no keyword
  argument: evaluating the call raises the builtin \<^verbatim>\<open>TypeError\<close> (\<open>PyTypeError\<close>).
  \<open>SdkTimeoutError\<close> stands for \<^verbatim>\<open>cbc_sdk.errors.TimeoutError\<close>, the timeout error of
  the SDK, which no code of the module constructs. \<open>UpstreamError\<close> is whatever the
  transport raises, with its status code.
\<close>

datatype usage =
    OrUnsupported
  | BuilderEmpty
  | AlreadySubmitted string
  | StartNotString pyval
  | EndNotString pyval
  | WindowNotString pyval

datatype error =
    ApiError usage
  | SdkTimeoutError
  | PyTypeError
  | PyAttributeError
  | UpstreamError nat

section \<open>The query builder\<close>

text \<open>
  Modelled from the spec: \<^verbatim>\<open>QueryBuilder\<close> is defined in \<^verbatim>\<open>cbc_sdk.base\<close>, which is
  not among the sources. The filter expression is a tree of clauses joined by AND and
  OR; a clause holds the keyword arguments of the call that added it. A builder to which
  nothing has been added is \<open>None\<close>. \<open>QueryBuilder_or\<close> appends a clause combined
  with OR and requires the builder to be non-empty first (fails otherwise).
\<close>

datatype filter_expr =
    Clause pydict
  | And filter_expr filter_expr
  | Or filter_expr filter_expr

type_synonym query_builder = "filter_expr option"

definition QueryBuilder_or :: "query_builder \<Rightarrow> pydict \<Rightarrow> error + query_builder" where
  "QueryBuilder_or qb kwargs =
     (case qb of
        None \<Rightarrow> Inl (ApiError BuilderEmpty)
      | Some e \<Rightarrow> Inr (Some (Or e (Clause kwargs))))"

section \<open>Query state\<close>

text \<open>One entry of \<^verbatim>\<open>self._sort\<close>: the dict \<^verbatim>\<open>{'field': key, 'order': direction}\<close>.\<close>

record sort_item =
  field :: string
  order :: string

text \<open>
  \<^verbatim>\<open>self._default_args\<close>: the only keys the module writes are \<^verbatim>\<open>rows\<close> and
  \<^verbatim>\<open>sort\<close>; \<open>None\<close> is an absent key.
\<close>

record default_args =
  da_rows :: "int option"
  da_sort :: "sort_item list option"

text \<open>
  The attributes of a \<^verbatim>\<open>Query\<close>, and those \<^verbatim>\<open>EnrichedEventQuery\<close> adds to them
  (the subclass is the record extension). \<^verbatim>\<open>_submit_time\<close> is not set by
  \<^verbatim>\<open>__init__\<close>: \<open>None\<close> is the missing attribute.
\<close>

record query =
  query_builder :: query_builder
  batch_size :: int
  total_results :: int
  count_valid :: bool

record eequery = query +
  default_args :: default_args
  query_token :: "string option"
  timeout :: int
  timed_out :: bool
  sort_items :: "sort_item list"
  time_range :: pydict
  submit_time :: "int option"

text \<open>
  \<^verbatim>\<open>Query.__init__\<close> with \<^verbatim>\<open>query=None\<close> and \<^verbatim>\<open>EnrichedEventQuery.__init__\<close>.
  Modelled from the spec: \<^verbatim>\<open>PaginatedQuery.__init__\<close> (in \<^verbatim>\<open>cbc_sdk.base\<close>, not
  among the sources) sets \<^verbatim>\<open>_total_results\<close> to 0 and the count-validity flag to false.
\<close>

definition Query_init :: query where
  "Query_init =
     \<lparr>query_builder = None, batch_size = 100, total_results = 0, count_valid = False\<rparr>"

definition EnrichedEventQuery_init :: eequery where
  "EnrichedEventQuery_init =
     \<lparr>query_builder = None, batch_size = 100, total_results = 0, count_valid = False,
      default_args = \<lparr>da_rows = None, da_sort = None\<rparr>,
      query_token = None, timeout = 0, timed_out = False, sort_items = [],
      time_range = [], submit_time = None\<rparr>"

section \<open>Transport, clock and trace\<close>

text \<open>
  The body of the job-creation request: \<^verbatim>\<open>_default_args.copy()\<close> with the key
  \<^verbatim>\<open>query\<close> added (its value is \<^verbatim>\<open>None\<close> when the builder is empty).
\<close>

record job_body =
  body_rows :: "int option"
  body_sort :: "sort_item list option"
  body_query :: "string option"

text \<open>
  The four requests the query classes issue: the synchronous search with its query
  parameters, the job creation with its body, the job status and the job results (with
  \<^verbatim>\<open>start\<close> and \<^verbatim>\<open>rows\<close> in the URL when paging). The token is the value formatted
  into the URL.
\<close>

datatype request =
    GetSearch pydict
  | PostSearchJob job_body
  | GetJobStatus "string option"
  | GetJobResults "string option" "(int \<times> int) option"

text \<open>
  The parsed JSON object of a response, restricted to the keys the query classes read;
  \<open>None\<close> is an absent key. The key \<^verbatim>\<open>results\<close> may also carry \<^verbatim>\<open>null\<close>.
\<close>

datatype 'row results_field = Absent | Null | Rows "'row list"

record 'row response =
  totalResults :: "int option"
  results :: "'row results_field"
  contacted :: "int option"
  completed :: "int option"
  num_available :: "int option"
  job_id :: "string option"

text \<open>
  What a caller of the query observes, in order: the requests sent, the rows the
  generator yields, and the half-second sleeps of the polling loop.
\<close>

datatype 'row event = Request request | Yield 'row | Sleep

text \<open>
  The collaborators outside the module. The server answers a request, given everything
  that happened before, with a response or a failure status that the transport raises.
  The clock gives the value of \<^verbatim>\<open>time.time() * 1000\<close> at its n-th reading, in whole
  milliseconds. \<^verbatim>\<open>QueryBuilder._collapse\<close> (in \<^verbatim>\<open>cbc_sdk.base\<close>, not among the
  sources) is a parameter: it serialises the builder to a string, or \<^verbatim>\<open>None\<close>.
\<close>

record 'row env =
  server :: "'row event list \<Rightarrow> request \<Rightarrow> nat + 'row response"
  clock :: "nat \<Rightarrow> int"
  collapse :: "query_builder \<Rightarrow> string option"

record 'row world =
  trace :: "'row event list"
  clock_reads :: nat

definition get_object ::
  "'row env \<Rightarrow> 'row world \<Rightarrow> request \<Rightarrow> (error + 'row response) \<times> 'row world" where
  "get_object env w req =
     ((case server env (trace w) req of
         Inl code \<Rightarrow> Inl (UpstreamError code)
       | Inr result \<Rightarrow> Inr result),
      w\<lparr>trace := trace w @ [Request req]\<rparr>)"

text \<open>
  \<^verbatim>\<open>result.get('results', [])\<close>: the empty list for an absent key, \<open>None\<close> for
  \<^verbatim>\<open>null\<close>.
\<close>

definition get_results :: "'row response \<Rightarrow> 'row list option" where
  "get_results result =
     (case results result of Absent \<Rightarrow> Some [] | Null \<Rightarrow> None | Rows items \<Rightarrow> Some items)"

definition post_object ::
  "'row env \<Rightarrow> 'row world \<Rightarrow> request \<Rightarrow> (error + 'row response) \<times> 'row world" where
  "post_object env w req = get_object env w req"

definition time_ms :: "'row env \<Rightarrow> 'row world \<Rightarrow> int \<times> 'row world" where
  "time_ms env w = (clock env (clock_reads w), w\<lparr>clock_reads := Suc (clock_reads w)\<rparr>)"

definition yield :: "'row world \<Rightarrow> 'row \<Rightarrow> 'row world" where
  "yield w item = w\<lparr>trace := trace w @ [Yield item]\<rparr>"

definition sleep :: "'row world \<Rightarrow> 'row world" where
  "sleep w = w\<lparr>trace := trace w @ [Sleep]\<rparr>"

section \<open>Configuration calls\<close>

text \<open>
  \<^verbatim>\<open>Query.or_\<close> raises unconditionally; \<^verbatim>\<open>EnrichedEventQuery.or_\<close> hands the keyword
  arguments to the builder and returns \<^verbatim>\<open>self\<close>. A call returns its outcome together
  with the object as it is afterwards.
\<close>

definition Query_or :: "query \<Rightarrow> pydict \<Rightarrow> (error + unit) \<times> query" where
  "Query_or s kwargs = (Inl (ApiError OrUnsupported), s)"

definition EnrichedEventQuery_or :: "eequery \<Rightarrow> pydict \<Rightarrow> (error + unit) \<times> eequery" where
  "EnrichedEventQuery_or s kwargs =
     (case QueryBuilder_or (query_builder s) kwargs of
        Inl e \<Rightarrow> (Inl e, s)
      | Inr qb \<Rightarrow> (Inr (), s\<lparr>query_builder := qb\<rparr>))"

text \<open>
  \<^verbatim>\<open>set_time_range\<close>: the three arguments are handled in order, each under its own
  truthiness guard; an assignment made for an earlier argument stays when a later one
  raises.
\<close>

definition set_time_range ::
  "eequery \<Rightarrow> pyval \<Rightarrow> pyval \<Rightarrow> pyval \<Rightarrow> (error + unit) \<times> eequery" where
  "set_time_range s start end' window =
     (if truthy start \<and> \<not> is_str start then (Inl (ApiError (StartNotString start)), s)
      else
        let s1 = (if truthy start
                  then s\<lparr>time_range := dict_set ''start'' start (time_range s)\<rparr> else s)
        in if truthy end' \<and> \<not> is_str end' then (Inl (ApiError (EndNotString end')), s1)
           else
             let s2 = (if truthy end'
                       then s1\<lparr>time_range := dict_set ''end'' end' (time_range s1)\<rparr> else s1)
             in if truthy window \<and> \<not> is_str window
                then (Inl (ApiError (WindowNotString window)), s2)
                else
                  (Inr (),
                   if truthy window
                   then s2\<lparr>time_range := dict_set ''window'' window (time_range s2)\<rparr>
                   else s2))"

text \<open>
  \<^verbatim>\<open>sort_by\<close>: the \<^verbatim>\<open>for\<close> loop over \<^verbatim>\<open>self._sort\<close> rewrites the order of every entry
  whose field is the key and remembers whether it met one; then the entry is appended
  if none was met, and \<^verbatim>\<open>_default_args['sort']\<close> is bound to the list.
\<close>

fun sort_by_loop ::
  "string \<Rightarrow> string \<Rightarrow> sort_item list \<Rightarrow> bool \<Rightarrow> sort_item list \<times> bool" where
  "sort_by_loop key direction [] found = ([], found)"
| "sort_by_loop key direction (sort_item # rest) found =
     (if field sort_item = key
      then (let (rest', found') = sort_by_loop key direction rest True
            in (sort_item\<lparr>order := direction\<rparr> # rest', found'))
      else (let (rest', found') = sort_by_loop key direction rest found
            in (sort_item # rest', found')))"

definition sort_by :: "eequery \<Rightarrow> string \<Rightarrow> string \<Rightarrow> eequery" where
  "sort_by s key direction =
     (let (items, found) = sort_by_loop key direction (sort_items s) False;
          items' = (if \<not> found then items @ [\<lparr>field = key, order = direction\<rparr>] else items)
      in s\<lparr>sort_items := items',
           default_args := (default_args s)\<lparr>da_sort := Some items'\<rparr>\<rparr>)"

text \<open>\<^verbatim>\<open>timeout(msecs)\<close>.\<close>

definition EnrichedEventQuery_timeout :: "eequery \<Rightarrow> int \<Rightarrow> eequery" where
  "EnrichedEventQuery_timeout s msecs = s\<lparr>timeout := msecs\<rparr>"

text \<open>A run of \<^verbatim>\<open>sort_by\<close> calls, in order.\<close>

fun sort_by_calls :: "eequery \<Rightarrow> (string \<times> string) list \<Rightarrow> eequery" where
  "sort_by_calls s [] = s"
| "sort_by_calls s ((key, direction) # calls) = sort_by_calls (sort_by s key direction) calls"

section \<open>The synchronous query\<close>

text \<open>
  \<^verbatim>\<open>str.split(sep)\<close> for a one-character separator, \<^verbatim>\<open>query.split(':', 1)\<close> unpacked
  into two names (\<open>None\<close> is the \<^verbatim>\<open>ValueError\<close> when there is no colon), and
  \<^verbatim>\<open>.strip('(').strip(')')\<close>.
\<close>

fun split_on :: "char \<Rightarrow> string \<Rightarrow> string list" where
  "split_on sep [] = [[]]"
| "split_on sep (c # cs) =
     (if c = sep then [] # split_on sep cs
      else (case split_on sep cs of
              [] \<Rightarrow> [[c]]
            | part # parts \<Rightarrow> (c # part) # parts))"

fun split_once :: "char \<Rightarrow> string \<Rightarrow> (string \<times> string) option" where
  "split_once sep [] = None"
| "split_once sep (c # cs) =
     (if c = sep then Some ([], cs)
      else (case split_once sep cs of
              None \<Rightarrow> None
            | Some (key, value) \<Rightarrow> Some (c # key, value)))"

definition strip :: "char \<Rightarrow> string \<Rightarrow> string" where
  "strip c s = rev (dropWhile (\<lambda>x. x = c) (rev (dropWhile (\<lambda>x. x = c) s)))"

definition strip_parens :: "string \<Rightarrow> string" where
  "strip_parens s = strip CHR '')'' (strip CHR ''('' s)"

definition prepare_query :: "'row env \<Rightarrow> 'a query_scheme \<Rightarrow> pydict \<Rightarrow> pydict" where
  "prepare_query env s args =
     (case collapse env (query_builder s) of
        None \<Rightarrow> args
      | Some params \<Rightarrow>
          foldl (\<lambda>request query.
                   case split_once CHR '':'' query of
                     None \<Rightarrow> request
                   | Some (key, value) \<Rightarrow>
                       dict_set (strip_parens key) (PStr (strip_parens value)) request)
                args (split_on CHR '' '' params))"

text \<open>\<^verbatim>\<open>Query._count\<close>.\<close>

definition Query_count ::
  "'row env \<Rightarrow> query \<Rightarrow> 'row world \<Rightarrow> (error + int) \<times> query \<times> 'row world" where
  "Query_count env s w =
     (if count_valid s then (Inr (total_results s), s, w)
      else
        (case get_object env w (GetSearch (prepare_query env s [])) of
           (Inl e, w1) \<Rightarrow> (Inl e, s, w1)
         | (Inr result, w1) \<Rightarrow>
             (let s1 = s\<lparr>total_results := get_default (totalResults result) 0\<rparr>;
                  s2 = s1\<lparr>count_valid := True\<rparr>
              in (Inr (total_results s2), s2, w1))))"

text \<open>
  \<^verbatim>\<open>Query._search\<close>. The \<^verbatim>\<open>for\<close> loop over one page yields each item and counts it;
  it returns the counters and the flag \<^verbatim>\<open>still_querying\<close>, which the row limit clears.
\<close>

fun search_for ::
  "int \<Rightarrow> 'row list \<Rightarrow> int \<Rightarrow> int \<Rightarrow> 'row world \<Rightarrow> int \<times> int \<times> bool \<times> 'row world" where
  "search_for rows [] current numrows w = (current, numrows, True, w)"
| "search_for rows (item # rest) current numrows w =
     (let w' = yield w item;
          current' = current + 1;
          numrows' = numrows + 1
      in if rows \<noteq> 0 \<and> numrows' = rows then (current', numrows', False, w')
         else search_for rows rest current' numrows' w')"

text \<open>
  One pass through the body of \<^verbatim>\<open>while still_querying\<close>: either the generator is
  finished (\<open>Stop\<close>, with an error when the transport raised), or the loop goes round
  again with the new \<^verbatim>\<open>args\<close>, \<^verbatim>\<open>current\<close> and \<^verbatim>\<open>numrows\<close>.
\<close>

datatype ('s, 'w) step =
    Stop "error + unit" 's 'w
  | Continue pydict int int 's 'w

definition search_body ::
  "'row env \<Rightarrow> int \<Rightarrow> pydict \<Rightarrow> int \<Rightarrow> int \<Rightarrow> query \<Rightarrow> 'row world
     \<Rightarrow> (query, 'row world) step" where
  "search_body env rows args current numrows s w =
     (case get_object env w (GetSearch args) of
        (Inl e, w1) \<Rightarrow> Stop (Inl e) s w1
      | (Inr result, w1) \<Rightarrow>
          (let s1 = s\<lparr>total_results := get_default (totalResults result) 0\<rparr>;
               s2 = s1\<lparr>count_valid := True\<rparr>
           in case get_results result of
                None \<Rightarrow> Stop (Inr ()) s2 w1
              | Some items \<Rightarrow>
                  (case search_for rows items current numrows w1 of
                     (current', numrows', still_querying, w2) \<Rightarrow>
                       (if current' \<ge> total_results s2 then Stop (Inr ()) s2 w2
                        else if items = [] then Stop (Inr ()) (s2\<lparr>total_results := current'\<rparr>) w2
                        else if still_querying
                        then Continue (dict_set ''start'' (PInt (current' + 1)) args)
                               current' numrows' s2 w2
                        else Stop (Inr ()) s2 w2))))"

text \<open>
  The \<^verbatim>\<open>while\<close> loop may go on for as long as the server keeps sending rows below a
  growing total, so it runs on fuel: \<open>None\<close> means the fuel ran out before the
  generator finished.
\<close>

fun search_loop ::
  "nat \<Rightarrow> 'row env \<Rightarrow> int \<Rightarrow> pydict \<Rightarrow> int \<Rightarrow> int \<Rightarrow> query \<Rightarrow> 'row world
     \<Rightarrow> ((error + unit) \<times> query \<times> 'row world) option" where
  "search_loop 0 env rows args current numrows s w = None"
| "search_loop (Suc fuel) env rows args current numrows s w =
     (case search_body env rows args current numrows s w of
        Stop r s' w' \<Rightarrow> Some (r, s', w')
      | Continue args' current' numrows' s' w' \<Rightarrow>
          search_loop fuel env rows args' current' numrows' s' w')"

definition Query_search ::
  "nat \<Rightarrow> 'row env \<Rightarrow> query \<Rightarrow> 'row world \<Rightarrow> int \<Rightarrow> int
     \<Rightarrow> ((error + unit) \<times> query \<times> 'row world) option" where
  "Query_search fuel env s w start rows =
     (let args0 = (if start \<noteq> 0 then dict_set ''start'' (PInt start) [] else []);
          args1 = dict_set ''rows'' (PInt (batch_size s)) args0;
          args = prepare_query env s args1
      in search_loop fuel env rows args start 0 s w)"

section \<open>The asynchronous query\<close>

text \<open>
  \<^verbatim>\<open>if self._query_token\<close>: the token when it is neither \<^verbatim>\<open>None\<close> nor the empty
  string.
\<close>

definition truthy_token :: "eequery \<Rightarrow> string option" where
  "truthy_token s =
     (case query_token s of None \<Rightarrow> None | Some t \<Rightarrow> if t = [] then None else Some t)"

definition get_query_parameters :: "'row env \<Rightarrow> eequery \<Rightarrow> job_body" where
  "get_query_parameters env s =
     \<lparr>body_rows = da_rows (default_args s), body_sort = da_sort (default_args s),
      body_query = collapse env (query_builder s)\<rparr>"

text \<open>\<^verbatim>\<open>_submit\<close>.\<close>

definition submit ::
  "'row env \<Rightarrow> eequery \<Rightarrow> 'row world \<Rightarrow> (error + unit) \<times> eequery \<times> 'row world" where
  "submit env s w =
     (case truthy_token s of
        Some t \<Rightarrow> (Inl (ApiError (AlreadySubmitted t)), s, w)
      | None \<Rightarrow>
        (case post_object env w (PostSearchJob (get_query_parameters env s)) of
           (Inl e, w1) \<Rightarrow> (Inl e, s, w1)
         | (Inr query_start, w1) \<Rightarrow>
             (let s1 = s\<lparr>query_token := job_id query_start\<rparr>;
                  s2 = s1\<lparr>timed_out := False\<rparr>
              in case time_ms env w1 of
                   (now, w2) \<Rightarrow> (Inr (), s2\<lparr>submit_time := Some now\<rparr>, w2))))"

text \<open>
  \<^verbatim>\<open>_still_querying\<close>. The clock is read only when a timeout is set (\<^verbatim>\<open>and\<close> does not
  evaluate its right operand otherwise), and before \<^verbatim>\<open>self._submit_time\<close> is.
\<close>

definition still_querying ::
  "'row env \<Rightarrow> eequery \<Rightarrow> 'row world \<Rightarrow> (error + bool) \<times> eequery \<times> 'row world" where
  "still_querying env s w =
     (case (if truthy_token s = None then submit env s w else (Inr (), s, w)) of
        (Inl e, s0, w0) \<Rightarrow> (Inl e, s0, w0)
      | (Inr u, s0, w0) \<Rightarrow>
          (case get_object env w0 (GetJobStatus (query_token s0)) of
             (Inl e, w1) \<Rightarrow> (Inl e, s0, w1)
           | (Inr result, w1) \<Rightarrow>
               (let searchers_contacted = get_default (contacted result) 0;
                    searchers_completed = get_default (completed result) 0
                in if searchers_contacted = 0 then (Inr True, s0, w1)
                   else if searchers_completed < searchers_contacted then
                     (if timeout s0 \<noteq> 0 then
                        (case time_ms env w1 of
                           (now, w2) \<Rightarrow>
                             (case submit_time s0 of
                                None \<Rightarrow> (Inl PyAttributeError, s0, w2)
                              | Some t0 \<Rightarrow>
                                  if now - t0 > timeout s0
                                  then (Inr False, s0\<lparr>timed_out := True\<rparr>, w2)
                                  else (Inr True, s0, w2)))
                      else (Inr True, s0, w1))
                   else (Inr False, s0, w1))))"

text \<open>
  \<^verbatim>\<open>while self._still_querying(): time.sleep(.5)\<close>. Nothing bounds the number of polls
  when no timeout is set, so the loop runs on fuel.
\<close>

fun wait_loop ::
  "nat \<Rightarrow> 'row env \<Rightarrow> eequery \<Rightarrow> 'row world
     \<Rightarrow> ((error + unit) \<times> eequery \<times> 'row world) option" where
  "wait_loop 0 env s w = None"
| "wait_loop (Suc fuel) env s w =
     (case still_querying env s w of
        (Inl e, s', w') \<Rightarrow> Some (Inl e, s', w')
      | (Inr again, s', w') \<Rightarrow>
          if again then wait_loop fuel env s' (sleep w') else Some (Inr (), s', w'))"

text \<open>
  \<^verbatim>\<open>EnrichedEventQuery._count\<close>. The \<^verbatim>\<open>raise\<close> after the polling loop evaluates
  \<^verbatim>\<open>TimeoutError(message=...)\<close> on the builtin class, which raises \<^verbatim>\<open>TypeError\<close>.
\<close>

definition EnrichedEventQuery_count ::
  "nat \<Rightarrow> 'row env \<Rightarrow> eequery \<Rightarrow> 'row world
     \<Rightarrow> ((error + int) \<times> eequery \<times> 'row world) option" where
  "EnrichedEventQuery_count fuel env s w =
     (if count_valid s then Some (Inr (total_results s), s, w)
      else
        (case wait_loop fuel env s w of
           None \<Rightarrow> None
         | Some (Inl e, s1, w1) \<Rightarrow> Some (Inl e, s1, w1)
         | Some (Inr u, s1, w1) \<Rightarrow>
             if timed_out s1 then Some (Inl PyTypeError, s1, w1)
             else
               (case get_object env w1 (GetJobResults (query_token s1) None) of
                  (Inl e, w2) \<Rightarrow> Some (Inl e, s1, w2)
                | (Inr result, w2) \<Rightarrow>
                    (let s2 = s1\<lparr>total_results := get_default (num_available result) 0\<rparr>;
                         s3 = s2\<lparr>count_valid := True\<rparr>
                     in Some (Inr (total_results s3), s3, w2)))))"

text \<open>
  \<^verbatim>\<open>EnrichedEventQuery._search\<close>: submit if there is no token, poll, then page through
  the results. Iterating over a \<^verbatim>\<open>null\<close> result list raises \<^verbatim>\<open>TypeError\<close>.
\<close>

fun fetch_for ::
  "int \<Rightarrow> 'row list \<Rightarrow> int \<Rightarrow> int \<Rightarrow> 'row world \<Rightarrow> int \<times> int \<times> bool \<times> 'row world" where
  "fetch_for rows [] current rows_fetched w = (current, rows_fetched, True, w)"
| "fetch_for rows (item # rest) current rows_fetched w =
     (let w' = yield w item;
          current' = current + 1;
          rows_fetched' = rows_fetched + 1
      in if rows \<noteq> 0 \<and> rows_fetched' \<ge> rows then (current', rows_fetched', False, w')
         else fetch_for rows rest current' rows_fetched' w')"

fun fetch_loop ::
  "nat \<Rightarrow> 'row env \<Rightarrow> int \<Rightarrow> int \<Rightarrow> int \<Rightarrow> eequery \<Rightarrow> 'row world
     \<Rightarrow> ((error + unit) \<times> eequery \<times> 'row world) option" where
  "fetch_loop 0 env rows current rows_fetched s w = None"
| "fetch_loop (Suc fuel) env rows current rows_fetched s w =
     (case get_object env w (GetJobResults (query_token s) (Some (current, batch_size s))) of
        (Inl e, w1) \<Rightarrow> Some (Inl e, s, w1)
      | (Inr result, w1) \<Rightarrow>
          (let s1 = s\<lparr>total_results := get_default (num_available result) 0\<rparr>;
               s2 = s1\<lparr>count_valid := True\<rparr>
           in case get_results result of
                None \<Rightarrow> Some (Inl PyTypeError, s2, w1)
              | Some items \<Rightarrow>
                  (case fetch_for rows items current rows_fetched w1 of
                     (current', rows_fetched', still_fetching, w2) \<Rightarrow>
                       if still_fetching \<and> \<not> current' \<ge> total_results s2
                       then fetch_loop fuel env rows current' rows_fetched' s2 w2
                       else Some (Inr (), s2, w2))))"

definition EnrichedEventQuery_search ::
  "nat \<Rightarrow> 'row env \<Rightarrow> eequery \<Rightarrow> 'row world \<Rightarrow> int \<Rightarrow> int
     \<Rightarrow> ((error + unit) \<times> eequery \<times> 'row world) option" where
  "EnrichedEventQuery_search fuel env s w start rows =
     (case (if truthy_token s = None then submit env s w else (Inr (), s, w)) of
        (Inl e, s0, w0) \<Rightarrow> Some (Inl e, s0, w0)
      | (Inr u, s0, w0) \<Rightarrow>
          (case wait_loop fuel env s0 w0 of
             None \<Rightarrow> None
           | Some (Inl e, s1, w1) \<Rightarrow> Some (Inl e, s1, w1)
           | Some (Inr u', s1, w1) \<Rightarrow>
               if timed_out s1 then Some (Inl PyTypeError, s1, w1)
               else fetch_loop fuel env rows start 0 s1 w1))"

text \<open>
  The attribute \<^verbatim>\<open>_submit_time\<close> exists whenever a token is present: true of a
  fresh query, and kept by every operation, since only \<^verbatim>\<open>_submit\<close> stores a token.
\<close>

definition submitted_ok :: "eequery \<Rightarrow> bool" where
  "submitted_ok s = (truthy_token s = None \<or> submit_time s \<noteq> None)"

section \<open>Observations and test doubles\<close>

text \<open>The rows a trace yields, and the requests it sends.\<close>

fun is_yield :: "'row event \<Rightarrow> bool" where
  "is_yield (Yield item) = True"
| "is_yield e = False"

fun is_request :: "'row event \<Rightarrow> bool" where
  "is_request (Request req) = True"
| "is_request e = False"

fun is_results_request :: "'row event \<Rightarrow> bool" where
  "is_results_request (Request (GetJobResults token page)) = True"
| "is_results_request e = False"

definition count_yields :: "'row event list \<Rightarrow> int" where
  "count_yields events = int (length (filter is_yield events))"

definition world0 :: "'row world" where
  "world0 = \<lparr>trace = [], clock_reads = 0\<rparr>"

definition empty_response :: "'row response" where
  "empty_response =
     \<lparr>totalResults = None, results = Absent, contacted = None, completed = None,
      num_available = None, job_id = None\<rparr>"

text \<open>
  A search endpoint holding the rows \<open>0, \<dots>, held - 1\<close> behind the legacy 1-based
  \<^verbatim>\<open>start\<close> parameter: a request for \<^verbatim>\<open>rows\<close> rows from \<^verbatim>\<open>start\<close> (1 when absent)
  gets the rows numbered \<^verbatim>\<open>start\<close> to \<^verbatim>\<open>start + rows - 1\<close>, counted from 1, and the
  total.
\<close>

definition legacy_server :: "nat \<Rightarrow> nat event list \<Rightarrow> request \<Rightarrow> nat + nat response" where
  "legacy_server held history req =
     (case req of
        GetSearch args \<Rightarrow>
          (let start = (case dict_get args ''start'' of Some (PInt i) \<Rightarrow> i | _ \<Rightarrow> 1);
               rows = (case dict_get args ''rows'' of Some (PInt n) \<Rightarrow> n | _ \<Rightarrow> 0);
               lo = nat (start - 1)
           in Inr (empty_response
                \<lparr>totalResults := Some (int held),
                 results := Rows [lo ..< min held (lo + nat rows)]\<rparr>))
      | _ \<Rightarrow> Inl 404)"

definition legacy_env :: "nat \<Rightarrow> nat env" where
  "legacy_env held =
     \<lparr>server = legacy_server held, clock = (\<lambda>n. 0), collapse = (\<lambda>qb. None)\<rparr>"

text \<open>
  A search endpoint that reports \<open>reported\<close> rows but holds only \<open>held\<close> of them.
\<close>

definition drifting_env :: "nat \<Rightarrow> nat \<Rightarrow> nat env" where
  "drifting_env reported held =
     \<lparr>server = (\<lambda>history req.
         case legacy_server held history req of
           Inl code \<Rightarrow> Inl code
         | Inr result \<Rightarrow> Inr (result\<lparr>totalResults := Some (int reported)\<rparr>)),
      clock = (\<lambda>n. 0), collapse = (\<lambda>qb. None)\<rparr>"

text \<open>
  A job endpoint: it accepts every job under the token \<^verbatim>\<open>job-1\<close>, answers the
  n-th status request with the pair \<open>status n\<close> of contacted and completed searchers,
  and serves the rows \<open>0, \<dots>, available - 1\<close> from a 0-based \<^verbatim>\<open>start\<close>.
\<close>

definition job_server ::
  "(nat \<Rightarrow> int \<times> int) \<Rightarrow> nat \<Rightarrow> nat event list \<Rightarrow> request \<Rightarrow> nat + nat response" where
  "job_server status available history req =
     (case req of
        GetSearch args \<Rightarrow> Inl 404
      | PostSearchJob body \<Rightarrow> Inr (empty_response\<lparr>job_id := Some ''job-1''\<rparr>)
      | GetJobStatus token \<Rightarrow>
          (case status (length (filter (\<lambda>e. case e of
                                   Request (GetJobStatus t) \<Rightarrow> True | _ \<Rightarrow> False) history)) of
             (c, d) \<Rightarrow> Inr (empty_response\<lparr>contacted := Some c, completed := Some d\<rparr>))
      | GetJobResults token page \<Rightarrow>
          Inr (empty_response
            \<lparr>num_available := Some (int available),
             results := Rows (case page of
                                None \<Rightarrow> [0 ..< available]
                              | Some (start, rows) \<Rightarrow>
                                  [nat start ..< min available (nat start + nat rows)])\<rparr>))"

text \<open>
  The clock of the test double: 0 when the job is submitted, 1 at the first poll and
  half a second more at each later one.
\<close>

definition poll_clock :: "nat \<Rightarrow> int" where
  "poll_clock n = (case n of 0 \<Rightarrow> 0 | Suc k \<Rightarrow> 1 + 500 * int k)"

definition job_env :: "(nat \<Rightarrow> int \<times> int) \<Rightarrow> nat \<Rightarrow> nat env" where
  "job_env status available =
     \<lparr>server = job_server status available, clock = poll_clock, collapse = (\<lambda>qb. None)\<rparr>"

text \<open>Successive calls of \<^verbatim>\<open>_count\<close> on one query object, with their outcomes.\<close>

fun Query_count_calls ::
  "nat \<Rightarrow> 'row env \<Rightarrow> query \<Rightarrow> 'row world \<Rightarrow> (error + int) list \<times> query \<times> 'row world" where
  "Query_count_calls 0 env s w = ([], s, w)"
| "Query_count_calls (Suc n) env s w =
     (case Query_count env s w of
        (r, s1, w1) \<Rightarrow>
          (case Query_count_calls n env s1 w1 of
             (rs, s2, w2) \<Rightarrow> (r # rs, s2, w2)))"

fun EnrichedEventQuery_count_calls ::
  "nat \<Rightarrow> nat \<Rightarrow> 'row env \<Rightarrow> eequery \<Rightarrow> 'row world
     \<Rightarrow> ((error + int) list \<times> eequery \<times> 'row world) option" where
  "EnrichedEventQuery_count_calls 0 fuel env s w = Some ([], s, w)"
| "EnrichedEventQuery_count_calls (Suc n) fuel env s w =
     (case EnrichedEventQuery_count fuel env s w of
        None \<Rightarrow> None
      | Some (r, s1, w1) \<Rightarrow>
          (case EnrichedEventQuery_count_calls n fuel env s1 w1 of
             None \<Rightarrow> None
           | Some (rs, s2, w2) \<Rightarrow> Some (r # rs, s2, w2)))"

section \<open>Sorting specification\<close>

lemma sort_by_loop_eq:
  "sort_by_loop key d xs found =
     (map (\<lambda>i. if field i = key then i\<lparr>order := d\<rparr> else i) xs,
      found \<or> key \<in> field ` set xs)"
  by (induction xs arbitrary: found) auto

lemma map_overwrite_absent:
  "key \<notin> field ` set xs \<Longrightarrow>
     map (\<lambda>i. if field i = key then i\<lparr>order := d\<rparr> else i) xs = xs"
  by (induction xs) auto

lemma sort_items_sort_by:
  "sort_items (sort_by s key d) =
     (if key \<in> field ` set (sort_items s)
      then map (\<lambda>i. if field i = key then i\<lparr>order := d\<rparr> else i) (sort_items s)
      else sort_items s @ [\<lparr>field = key, order = d\<rparr>])"
  by (simp add: sort_by_def sort_by_loop_eq map_overwrite_absent)

lemma sort_by_calls_snoc:
  "sort_by_calls s (calls @ [(key, d)]) = sort_by (sort_by_calls s calls) key d"
  by (induction s calls rule: sort_by_calls.induct) auto

lemma fields_sort_by:
  "map field (sort_items (sort_by s key d)) =
     (if key \<in> set (map field (sort_items s)) then map field (sort_items s)
      else map field (sort_items s) @ [key])"
proof -
  have "map field (map (\<lambda>i. if field i = key then i\<lparr>order := d\<rparr> else i) xs) = map field xs"
    for xs :: "sort_item list"
    by (induction xs) auto
  then show ?thesis by (simp add: sort_items_sort_by)
qed

lemma sort_by_calls_fields:
  "map field (sort_items (sort_by_calls EnrichedEventQuery_init calls)) =
     rev (remdups (rev (map fst calls)))"
proof (induction calls rule: rev_induct)
  case Nil
  show ?case by (simp add: EnrichedEventQuery_init_def)
next
  case (snoc c calls)
  obtain key d where c: "c = (key, d)" by (cases c)
  have s: "set (map field (sort_items (sort_by_calls EnrichedEventQuery_init calls))) =
             set (map fst calls)"
    using snoc.IH by simp
  show ?case
    unfolding c sort_by_calls_snoc fields_sort_by s
    using snoc.IH by simp
qed

lemma sort_by_calls_orders:
  "item \<in> set (sort_items (sort_by_calls EnrichedEventQuery_init calls)) \<Longrightarrow>
     map_of (rev calls) (field item) = Some (order item)"
proof (induction calls arbitrary: item rule: rev_induct)
  case Nil
  then show ?case by (simp add: EnrichedEventQuery_init_def)
next
  case (snoc c calls)
  obtain key d where c: "c = (key, d)" by (cases c)
  from snoc.prems show ?case
    unfolding c sort_by_calls_snoc sort_items_sort_by
    using snoc.IH by (auto split: if_splits)
qed

text \<open>
  Claim C7. \<^verbatim>\<open>sort_by\<close> keeps one entry per key. On any query, a call whose key
  already has an entry rewrites the direction of that entry where it stands and leaves
  the list of keys as it was; a call with a new key appends the entry. Hence after any
  sequence of calls on a fresh query the keys appear once each, in the order in which
  they were first given, and every entry carries the direction of the last call for its
  key; \<^verbatim>\<open>_default_args['sort']\<close> is that list. Repeating a call changes nothing.
\<close>

theorem sort_by_one_entry_per_key:
  "sort_items (sort_by s key d) =
     (if key \<in> field ` set (sort_items s)
      then map (\<lambda>i. if field i = key then i\<lparr>order := d\<rparr> else i) (sort_items s)
      else sort_items s @ [\<lparr>field = key, order = d\<rparr>])
   \<and> da_sort (default_args (sort_by s key d)) = Some (sort_items (sort_by s key d))
   \<and> sort_by (sort_by s key d) key d = sort_by s key d
   \<and> map field (sort_items (sort_by_calls EnrichedEventQuery_init calls)) =
       rev (remdups (rev (map fst calls)))
   \<and> (\<forall>item \<in> set (sort_items (sort_by_calls EnrichedEventQuery_init calls)).
         map_of (rev calls) (field item) = Some (order item))"
proof -
  let ?ow = "\<lambda>i. if field i = key then i\<lparr>order := d\<rparr> else i"
  let ?s' = "sort_by s key d"
  have "key \<in> set (map field (sort_items ?s'))"
    unfolding fields_sort_by by simp
  then have present: "key \<in> field ` set (sort_items ?s')"
    by simp
  have fixed: "map ?ow (sort_items ?s') = sort_items ?s'"
    by (simp add: sort_items_sort_by map_overwrite_absent)
  have bound: "da_sort (default_args ?s') = Some (sort_items ?s')"
    by (simp add: sort_by_def sort_by_loop_eq)
  have "sort_by ?s' key d =
          ?s'\<lparr>sort_items := map ?ow (sort_items ?s'),
              default_args := (default_args ?s')\<lparr>da_sort := Some (map ?ow (sort_items ?s'))\<rparr>\<rparr>"
    using present unfolding sort_by_def [of ?s'] sort_by_loop_eq by (simp add: Let_def)
  also have "\<dots> = ?s'"
    unfolding fixed bound [symmetric] by simp
  finally have again: "sort_by ?s' key d = ?s'" .
  show ?thesis
  proof (intro conjI ballI)
    show "sort_items ?s' =
            (if key \<in> field ` set (sort_items s) then map ?ow (sort_items s)
             else sort_items s @ [\<lparr>field = key, order = d\<rparr>])"
      by (rule sort_items_sort_by)
    show "da_sort (default_args ?s') = Some (sort_items ?s')" by (rule bound)
    show "sort_by ?s' key d = ?s'" by (rule again)
    show "map field (sort_items (sort_by_calls EnrichedEventQuery_init calls)) =
            rev (remdups (rev (map fst calls)))"
      by (rule sort_by_calls_fields)
  next
    fix item
    assume "item \<in> set (sort_items (sort_by_calls EnrichedEventQuery_init calls))"
    then show "map_of (rev calls) (field item) = Some (order item)"
      by (rule sort_by_calls_orders)
  qed
qed

theorem sort_by_one_entry_per_key_witness:
  "sort_items (sort_by_calls EnrichedEventQuery_init [(''ts'', ''ASC''), (''ts'', ''DESC'')]) =
     [\<lparr>field = ''ts'', order = ''DESC''\<rparr>]
   \<and> map field (sort_items (sort_by_calls EnrichedEventQuery_init
        [(''ts'', ''ASC''), (''a'', ''ASC''), (''ts'', ''DESC'')])) = [''ts'', ''a'']
   \<and> map_of (rev [(''ts'', ''ASC''), (''ts'', ''DESC'')]) ''ts'' = Some ''DESC''"
proof -
  let ?calls = "[(''ts'', ''ASC''), (''ts'', ''DESC'')]"
  let ?s1 = "sort_by EnrichedEventQuery_init ''ts'' ''ASC''"
  note thm1 = sort_by_one_entry_per_key [of EnrichedEventQuery_init "''ts''" "''ASC''" ?calls]
  note thm2 = sort_by_one_entry_per_key [of ?s1 "''ts''" "''DESC''"
      "[(''ts'', ''ASC''), (''a'', ''ASC''), (''ts'', ''DESC'')]"]
  have s1: "sort_items ?s1 = [\<lparr>field = ''ts'', order = ''ASC''\<rparr>]"
    using thm1 [THEN conjunct1] by (simp add: EnrichedEventQuery_init_def)
  have s2: "sort_items (sort_by ?s1 ''ts'' ''DESC'') = [\<lparr>field = ''ts'', order = ''DESC''\<rparr>]"
    using thm2 [THEN conjunct1] by (simp add: s1)
  have run: "sort_items (sort_by_calls EnrichedEventQuery_init ?calls) =
               [\<lparr>field = ''ts'', order = ''DESC''\<rparr>]"
    using s2 by simp
  have mem: "\<lparr>field = ''ts'', order = ''DESC''\<rparr> \<in>
               set (sort_items (sort_by_calls EnrichedEventQuery_init ?calls))"
    unfolding run by simp
  have last: "map_of (rev ?calls) ''ts'' = Some ''DESC''"
    using thm1 [THEN conjunct2, THEN conjunct2, THEN conjunct2, THEN conjunct2, THEN bspec, OF mem]
    by simp
  have keys: "map field (sort_items (sort_by_calls EnrichedEventQuery_init
        [(''ts'', ''ASC''), (''a'', ''ASC''), (''ts'', ''DESC'')])) = [''ts'', ''a'']"
    using thm2 [THEN conjunct2, THEN conjunct2, THEN conjunct2, THEN conjunct1] by simp
  show ?thesis using run last keys by simp
qed

section \<open>Configuration calls: \<^verbatim>\<open>or_\<close> and \<^verbatim>\<open>set_time_range\<close>\<close>

lemma dict_get_dict_set:
  "dict_get (dict_set k v d) k' = (if k' = k then Some v else dict_get d k')"
  by (induction d) (auto simp: dict_get_def)

text \<open>
  Claim C6, as stated, fails: on a fresh asynchronous query the builder is empty, and
  \<^verbatim>\<open>or_\<close> hands the call to the builder, which rejects it.
\<close>

theorem or_counterexample:
  "EnrichedEventQuery_or EnrichedEventQuery_init [(''process_name'', PStr ''cmd.exe'')] =
     (Inl (ApiError BuilderEmpty), EnrichedEventQuery_init)"
  by (simp add: EnrichedEventQuery_or_def QueryBuilder_or_def EnrichedEventQuery_init_def)

text \<open>
  Claim C6, amended. \<^verbatim>\<open>or_\<close> on a synchronous query fails with the usage error
  whatever the state of the query and leaves it unchanged. On an asynchronous query it
  does not reject the call itself: when the builder holds a filter, the clause is
  appended to it combined with OR, nothing else of the query changes and the call
  succeeds, returning the query; when the builder is empty, the builder's own usage
  error comes out and the query is unchanged.
\<close>

theorem or_by_protocol:
  "Query_or s kwargs = (Inl (ApiError OrUnsupported), s)
   \<and> (query_builder q = Some e \<longrightarrow>
        EnrichedEventQuery_or q kwargs = (Inr (), q\<lparr>query_builder := Some (Or e (Clause kwargs))\<rparr>))
   \<and> (query_builder q = None \<longrightarrow>
        EnrichedEventQuery_or q kwargs = (Inl (ApiError BuilderEmpty), q))"
  by (simp add: Query_or_def EnrichedEventQuery_or_def QueryBuilder_or_def)

theorem or_by_protocol_witness:
  "query_builder (EnrichedEventQuery_init\<lparr>query_builder := Some (Clause [(''process_name'', PStr ''cmd.exe'')])\<rparr>) =
     Some (Clause [(''process_name'', PStr ''cmd.exe'')])
   \<and> EnrichedEventQuery_or
        (EnrichedEventQuery_init\<lparr>query_builder := Some (Clause [(''process_name'', PStr ''cmd.exe'')])\<rparr>)
        [(''process_name'', PStr ''foo.exe'')] =
      (Inr (),
       EnrichedEventQuery_init\<lparr>query_builder :=
         Some (Or (Clause [(''process_name'', PStr ''cmd.exe'')])
                  (Clause [(''process_name'', PStr ''foo.exe'')]))\<rparr>)
   \<and> query_builder EnrichedEventQuery_init = None
   \<and> EnrichedEventQuery_or EnrichedEventQuery_init [(''process_name'', PStr ''foo.exe'')] =
      (Inl (ApiError BuilderEmpty), EnrichedEventQuery_init)"
proof -
  let ?e = "Clause [(''process_name'', PStr ''cmd.exe'')]"
  let ?q = "EnrichedEventQuery_init\<lparr>query_builder := Some ?e\<rparr>"
  let ?kw = "[(''process_name'', PStr ''foo.exe'')]"
  have b: "query_builder ?q = Some ?e" by simp
  have n: "query_builder EnrichedEventQuery_init = None"
    by (simp add: EnrichedEventQuery_init_def)
  have ok: "EnrichedEventQuery_or ?q ?kw = (Inr (), ?q\<lparr>query_builder := Some (Or ?e (Clause ?kw))\<rparr>)"
    using or_by_protocol [where q = ?q and e = ?e and kwargs = ?kw, THEN conjunct2, THEN conjunct1] b
    by (rule mp)
  have bad: "EnrichedEventQuery_or EnrichedEventQuery_init ?kw =
               (Inl (ApiError BuilderEmpty), EnrichedEventQuery_init)"
    using or_by_protocol [where q = EnrichedEventQuery_init and kwargs = ?kw,
        THEN conjunct2, THEN conjunct2] n
    by (rule mp)
  show ?thesis using b n ok bad by simp
qed

text \<open>
  What \<^verbatim>\<open>set_time_range\<close> does, for all arguments. It changes nothing of the query
  but the time range. The arguments are taken in the order start, end, window, and the
  type check of each sits under the truthiness guard \<^verbatim>\<open>if start:\<close>: a truthy argument
  that is not a string raises the usage error before its own entry or any later one is
  written, while the entries written for earlier arguments of the same call stay; a
  truthy string is stored under its key; an argument that is not truthy never reaches
  the type check. Every other entry of the time range is as before, so a window is
  stored alongside the start and end entries already there.
\<close>

lemma set_time_range_effect:
  "(case set_time_range s start end' window of
      (r, s') \<Rightarrow>
        s' = s\<lparr>time_range := time_range s'\<rparr> \<and>
        (if truthy start \<and> \<not> is_str start
         then r = Inl (ApiError (StartNotString start)) \<and> time_range s' = time_range s
         else if truthy end' \<and> \<not> is_str end'
         then r = Inl (ApiError (EndNotString end')) \<and>
              (\<forall>k. dict_get (time_range s') k =
                 (if k = ''start'' \<and> truthy start then Some start
                  else dict_get (time_range s) k))
         else if truthy window \<and> \<not> is_str window
         then r = Inl (ApiError (WindowNotString window)) \<and>
              (\<forall>k. dict_get (time_range s') k =
                 (if k = ''start'' \<and> truthy start then Some start
                  else if k = ''end'' \<and> truthy end' then Some end'
                  else dict_get (time_range s) k))
         else r = Inr () \<and>
              (\<forall>k. dict_get (time_range s') k =
                 (if k = ''start'' \<and> truthy start then Some start
                  else if k = ''end'' \<and> truthy end' then Some end'
                  else if k = ''window'' \<and> truthy window then Some window
                  else dict_get (time_range s) k))))"
  by (simp add: set_time_range_def Let_def dict_get_dict_set)


lemma set_time_range_effect_example:
  "(case set_time_range
          (EnrichedEventQuery_init\<lparr>time_range :=
             [(''start'', PStr ''2020-10-20T20:34:07Z''), (''end'', PStr ''2020-10-30T20:34:07Z'')]\<rparr>)
          PNone PNone (PStr ''-3d'') of
      (r, s') \<Rightarrow>
        r = Inr () \<and>
        dict_get (time_range s') ''start'' = Some (PStr ''2020-10-20T20:34:07Z'') \<and>
        dict_get (time_range s') ''end'' = Some (PStr ''2020-10-30T20:34:07Z'') \<and>
        dict_get (time_range s') ''window'' = Some (PStr ''-3d''))
   \<and> (case set_time_range EnrichedEventQuery_init (PStr ''2020-10-20T20:34:07Z'') (PInt 5) PNone of
      (r, s') \<Rightarrow>
        r = Inl (ApiError (EndNotString (PInt 5))) \<and>
        dict_get (time_range s') ''start'' = Some (PStr ''2020-10-20T20:34:07Z'') \<and>
        dict_get (time_range s') ''end'' = None)"
proof -
  let ?s = "EnrichedEventQuery_init\<lparr>time_range :=
             [(''start'', PStr ''2020-10-20T20:34:07Z''), (''end'', PStr ''2020-10-30T20:34:07Z'')]\<rparr>"
  have a: "case set_time_range ?s PNone PNone (PStr ''-3d'') of
      (r, s') \<Rightarrow>
        r = Inr () \<and>
        dict_get (time_range s') ''start'' = Some (PStr ''2020-10-20T20:34:07Z'') \<and>
        dict_get (time_range s') ''end'' = Some (PStr ''2020-10-30T20:34:07Z'') \<and>
        dict_get (time_range s') ''window'' = Some (PStr ''-3d'')"
    using set_time_range_effect [of ?s PNone PNone "PStr ''-3d''"]
    by (auto simp: dict_get_def split: prod.splits)
  have b: "case set_time_range EnrichedEventQuery_init (PStr ''2020-10-20T20:34:07Z'') (PInt 5) PNone of
      (r, s') \<Rightarrow>
        r = Inl (ApiError (EndNotString (PInt 5))) \<and>
        dict_get (time_range s') ''start'' = Some (PStr ''2020-10-20T20:34:07Z'') \<and>
        dict_get (time_range s') ''end'' = None"
    using set_time_range_effect
      [of EnrichedEventQuery_init "PStr ''2020-10-20T20:34:07Z''" "PInt 5" PNone]
    by (auto simp: dict_get_def EnrichedEventQuery_init_def split: prod.splits)
  show ?thesis using a b by (rule conjI)
qed

text \<open>
  Claim C9. The code breaks the claim for an argument that is provided, is not a string
  and is falsy. \<^verbatim>\<open>set_time_range(start=0)\<close> and \<^verbatim>\<open>set_time_range(start=False)\<close>
  return normally and leave the time range as it was: the wrong-typed argument is
  neither rejected nor stored, and the same holds of \<^verbatim>\<open>end\<close> and \<^verbatim>\<open>window\<close>. The
  sibling call \<^verbatim>\<open>set_time_range(start=5)\<close> raises the usage error with the message
  that the start time must be a string, as the claim says every non-string argument
  does.
\<close>

theorem set_time_range_skips_falsy_non_string:
  "set_time_range EnrichedEventQuery_init (PInt 0) PNone PNone =
     (Inr (), EnrichedEventQuery_init)
   \<and> set_time_range EnrichedEventQuery_init (PBool False) PNone PNone =
     (Inr (), EnrichedEventQuery_init)
   \<and> set_time_range EnrichedEventQuery_init PNone (PInt 0) PNone =
     (Inr (), EnrichedEventQuery_init)
   \<and> set_time_range EnrichedEventQuery_init PNone PNone (PInt 0) =
     (Inr (), EnrichedEventQuery_init)
   \<and> set_time_range EnrichedEventQuery_init (PInt 5) PNone PNone =
     (Inl (ApiError (StartNotString (PInt 5))), EnrichedEventQuery_init)"
  by (simp add: set_time_range_def)

section \<open>Job submission\<close>

text \<open>
  Claim C5. On a query that holds a job token, \<^verbatim>\<open>_submit\<close> fails with the usage
  error; no request is sent (the trace is unchanged) and the query, its token included,
  is unchanged. In particular a second \<^verbatim>\<open>_submit\<close> after one that stored a token
  fails.
\<close>

theorem submit_twice_fails:
  "(truthy_token s = Some t \<longrightarrow> submit env s w = (Inl (ApiError (AlreadySubmitted t)), s, w))
   \<and> (submit env s w = (Inr (), s1, w1) \<and> truthy_token s1 = Some t \<longrightarrow>
        submit env s1 w1 = (Inl (ApiError (AlreadySubmitted t)), s1, w1))"
  by (simp add: submit_def)

theorem submit_twice_fails_witness:
  "(case submit (job_env (\<lambda>n. (1, 1)) 0) EnrichedEventQuery_init world0 of
      (r1, s1, w1) \<Rightarrow>
        r1 = Inr () \<and> truthy_token s1 = Some ''job-1'' \<and>
        trace w1 = [Request (PostSearchJob \<lparr>body_rows = None, body_sort = None, body_query = None\<rparr>)] \<and>
        submit (job_env (\<lambda>n. (1, 1)) 0) s1 w1 = (Inl (ApiError (AlreadySubmitted ''job-1'')), s1, w1))"
proof -
  let ?env = "job_env (\<lambda>n. (1, 1)) 0"
  obtain r1 s1 w1 where first: "submit ?env EnrichedEventQuery_init world0 = (r1, s1, w1)"
    by (cases "submit ?env EnrichedEventQuery_init world0")
  have r1: "r1 = Inr ()" and tok: "truthy_token s1 = Some ''job-1''"
    and tr: "trace w1 = [Request (PostSearchJob \<lparr>body_rows = None, body_sort = None, body_query = None\<rparr>)]"
    using first
    by (auto simp: submit_def truthy_token_def EnrichedEventQuery_init_def world0_def
        post_object_def get_object_def job_env_def job_server_def empty_response_def
        get_query_parameters_def time_ms_def Let_def)
  have "submit ?env s1 w1 = (Inl (ApiError (AlreadySubmitted ''job-1'')), s1, w1)"
    using submit_twice_fails [of s1 "''job-1''" ?env w1, THEN conjunct1] tok by (rule mp)
  then show ?thesis using first r1 tok tr by simp
qed

section \<open>Polling\<close>

lemma get_object_eq:
  "server env (trace w) req = Inr result \<Longrightarrow>
     get_object env w req = (Inr result, w\<lparr>trace := trace w @ [Request req]\<rparr>)"
  by (simp add: get_object_def)

text \<open>
  Claim C4. On a submitted query (a token is present) with no timeout set, and when the
  status request is answered, \<^verbatim>\<open>_still_querying\<close> sends that one request, changes
  nothing of the query and returns true when the reported \<^verbatim>\<open>contacted\<close> is 0, true
  when \<^verbatim>\<open>completed < contacted\<close>, and false otherwise; for a count \<^verbatim>\<open>contacted\<close>
  (not negative) it is false exactly when \<^verbatim>\<open>contacted > 0\<close> and
  \<^verbatim>\<open>completed >= contacted\<close>. An absent key counts as 0.
\<close>

theorem still_querying_without_timeout:
  assumes "truthy_token s = Some t"
    and "timeout s = 0"
    and "server env (trace w) (GetJobStatus (query_token s)) = Inr result"
  shows "let c = get_default (contacted result) 0;
             d = get_default (completed result) 0;
             again = (c = 0 \<or> d < c)
         in still_querying env s w =
              (Inr again, s, w\<lparr>trace := trace w @ [Request (GetJobStatus (query_token s))]\<rparr>)
            \<and> (c = 0 \<longrightarrow> again)
            \<and> (d < c \<longrightarrow> again)
            \<and> (0 \<le> c \<longrightarrow> (\<not> again \<longleftrightarrow> 0 < c \<and> d \<ge> c))"
  using assms by (auto simp: still_querying_def get_object_eq Let_def)

theorem still_querying_without_timeout_witness:
  "truthy_token (EnrichedEventQuery_init\<lparr>query_token := Some ''job-1''\<rparr>) = Some ''job-1''
   \<and> timeout (EnrichedEventQuery_init\<lparr>query_token := Some ''job-1''\<rparr>) = 0
   \<and> fst (still_querying (job_env (\<lambda>n. (3, 2)) 0)
            (EnrichedEventQuery_init\<lparr>query_token := Some ''job-1''\<rparr>) world0) = Inr True
   \<and> fst (still_querying (job_env (\<lambda>n. (3, 3)) 0)
            (EnrichedEventQuery_init\<lparr>query_token := Some ''job-1''\<rparr>) world0) = Inr False
   \<and> fst (still_querying (job_env (\<lambda>n. (0, 0)) 0)
            (EnrichedEventQuery_init\<lparr>query_token := Some ''job-1''\<rparr>) world0) = Inr True"
proof -
  let ?s = "EnrichedEventQuery_init\<lparr>query_token := Some ''job-1''\<rparr>"
  have tok: "truthy_token ?s = Some ''job-1''"
    by (simp add: truthy_token_def)
  have tmo: "timeout ?s = 0"
    by (simp add: EnrichedEventQuery_init_def)
  have srv: "server (job_env (\<lambda>n. (c, d)) 0) (trace world0) (GetJobStatus (query_token ?s)) =
               Inr (empty_response\<lparr>contacted := Some c, completed := Some d\<rparr>)" for c d
    by (simp add: job_env_def job_server_def world0_def)
  have a: "fst (still_querying (job_env (\<lambda>n. (3, 2)) 0) ?s world0) = Inr True"
    using still_querying_without_timeout [OF tok tmo srv [of 3 2]]
    by (simp add: Let_def get_default_def empty_response_def)
  have b: "fst (still_querying (job_env (\<lambda>n. (3, 3)) 0) ?s world0) = Inr False"
    using still_querying_without_timeout [OF tok tmo srv [of 3 3]]
    by (simp add: Let_def get_default_def empty_response_def)
  have c: "fst (still_querying (job_env (\<lambda>n. (0, 0)) 0) ?s world0) = Inr True"
    using still_querying_without_timeout [OF tok tmo srv [of 0 0]]
    by (simp add: Let_def get_default_def empty_response_def)
  show ?thesis using tok tmo a b c by simp
qed

section \<open>The cached count\<close>

lemma Query_count_valid:
  "count_valid s \<Longrightarrow> Query_count env s w = (Inr (total_results s), s, w)"
  by (simp add: Query_count_def)

lemma Query_count_calls_valid:
  "count_valid s \<Longrightarrow>
     Query_count_calls k env s w = (replicate k (Inr (total_results s)), s, w)"
  by (induction k) (simp_all add: Query_count_valid)

lemma Query_count_success:
  assumes "Query_count env s w = (Inr n, s', w')"
  shows "count_valid s' \<and> total_results s' = n"
  using assms
  by (auto simp: Query_count_def Let_def split: if_splits prod.splits sum.splits)

lemma Query_count_trace:
  assumes "Query_count env s w = (r, s', w')"
  shows "length (filter is_request (trace w')) \<le> Suc (length (filter is_request (trace w)))"
  using assms
  by (auto simp: Query_count_def Let_def get_object_def split: if_splits prod.splits sum.splits)

lemma EnrichedEventQuery_count_valid:
  "count_valid q \<Longrightarrow>
     EnrichedEventQuery_count fuel env q w = Some (Inr (total_results q), q, w)"
  by (simp add: EnrichedEventQuery_count_def)

lemma EnrichedEventQuery_count_calls_valid:
  "count_valid q \<Longrightarrow>
     EnrichedEventQuery_count_calls k fuel env q w =
       Some (replicate k (Inr (total_results q)), q, w)"
  by (induction k) (simp_all add: EnrichedEventQuery_count_valid)

lemma submit_trace:
  assumes "submit env s w = (r, s', w')"
  shows "trace w' = trace w \<or>
         trace w' = trace w @ [Request (PostSearchJob (get_query_parameters env s))]"
  using assms
  by (auto simp: submit_def post_object_def get_object_def time_ms_def Let_def
      split: option.splits prod.splits sum.splits)

lemma still_querying_results_requests:
  assumes "still_querying env s w = (r, s', w')"
  shows "filter is_results_request (trace w') = filter is_results_request (trace w)"
proof -
  obtain r0 s0 w0 where pre:
    "(if truthy_token s = None then submit env s w else (Inr (), s, w)) = (r0, s0, w0)"
    by (cases "if truthy_token s = None then submit env s w else (Inr (), s, w)")
  have t0: "filter is_results_request (trace w0) = filter is_results_request (trace w)"
    using pre submit_trace [of env s w r0 s0 w0] by (auto split: if_splits)
  show ?thesis
    using assms t0 unfolding still_querying_def pre
    by (auto simp: get_object_def time_ms_def Let_def
        split: sum.splits prod.splits option.splits if_splits)
qed

lemma wait_loop_results_requests:
  "wait_loop fuel env s w = Some (r, s', w') \<Longrightarrow>
     filter is_results_request (trace w') = filter is_results_request (trace w)"
proof (induction fuel arbitrary: s w)
  case 0
  then show ?case by simp
next
  case (Suc fuel)
  obtain r1 s1 w1 where sq: "still_querying env s w = (r1, s1, w1)"
    by (cases "still_querying env s w")
  note t1 = still_querying_results_requests [OF sq]
  show ?case
  proof (cases r1)
    case (Inl e)
    with Suc.prems sq t1 show ?thesis by simp
  next
    case (Inr again)
    show ?thesis
    proof (cases again)
      case True
      with Suc.prems sq Inr have "wait_loop fuel env s1 (sleep w1) = Some (r, s', w')"
        by simp
      from Suc.IH [OF this] t1 show ?thesis by (simp add: sleep_def)
    next
      case False
      with Suc.prems sq Inr t1 show ?thesis by simp
    qed
  qed
qed

lemma EnrichedEventQuery_count_success:
  assumes "EnrichedEventQuery_count fuel env q w = Some (Inr n, q', w')"
  shows "count_valid q' \<and> total_results q' = n"
  using assms
  by (auto simp: EnrichedEventQuery_count_def Let_def
      split: if_splits option.splits prod.splits sum.splits)

lemma EnrichedEventQuery_count_trace:
  assumes "EnrichedEventQuery_count fuel env q w = Some (r, q', w')"
  shows "length (filter is_results_request (trace w')) \<le>
           Suc (length (filter is_results_request (trace w)))"
proof (cases "count_valid q")
  case True
  with assms show ?thesis by (simp add: EnrichedEventQuery_count_def)
next
  case False
  then obtain r1 q1 w1 where wl: "wait_loop fuel env q w = Some (r1, q1, w1)"
    using assms by (auto simp: EnrichedEventQuery_count_def split: option.splits)
  note t1 = wait_loop_results_requests [OF wl]
  show ?thesis
    using assms False wl t1
    by (auto simp: EnrichedEventQuery_count_def get_object_def Let_def
        split: sum.splits if_splits prod.splits)
qed

text \<open>
  Claim C8. For the synchronous and for the asynchronous query alike: while the
  count-valid flag is set, \<^verbatim>\<open>_count\<close> returns the cached \<^verbatim>\<open>_total_results\<close>
  without sending anything and without changing the query; a \<^verbatim>\<open>_count\<close> that
  returns a count leaves the flag set and that count cached. So any number of further
  calls return the same count and add nothing to the trace, and the whole run of calls
  has sent at most one count-determining request (the search request, respectively the
  job results request).
\<close>

theorem count_is_cached:
  "(count_valid s \<longrightarrow> Query_count env s w = (Inr (total_results s), s, w))
   \<and> (Query_count env s w = (Inr n, s', w') \<longrightarrow>
        count_valid s' \<and> total_results s' = n
        \<and> Query_count_calls (Suc k) env s w = (replicate (Suc k) (Inr n), s', w')
        \<and> length (filter is_request (trace w')) \<le> Suc (length (filter is_request (trace w))))
   \<and> (count_valid q \<longrightarrow>
        EnrichedEventQuery_count fuel env' q v = Some (Inr (total_results q), q, v))
   \<and> (EnrichedEventQuery_count fuel env' q v = Some (Inr m, q', v') \<longrightarrow>
        count_valid q' \<and> total_results q' = m
        \<and> EnrichedEventQuery_count_calls (Suc k) fuel env' q v =
            Some (replicate (Suc k) (Inr m), q', v')
        \<and> length (filter is_results_request (trace v')) \<le>
            Suc (length (filter is_results_request (trace v))))"
proof (intro conjI impI)
  assume "count_valid s"
  then show "Query_count env s w = (Inr (total_results s), s, w)"
    by (rule Query_count_valid)
next
  assume first: "Query_count env s w = (Inr n, s', w')"
  from Query_count_success [OF first]
  show valid: "count_valid s'" and total: "total_results s' = n" by simp_all
  show "Query_count_calls (Suc k) env s w = (replicate (Suc k) (Inr n), s', w')"
    using first Query_count_calls_valid [OF valid, of k env w'] total by simp
  show "length (filter is_request (trace w')) \<le> Suc (length (filter is_request (trace w)))"
    using first by (rule Query_count_trace)
next
  assume "count_valid q"
  then show "EnrichedEventQuery_count fuel env' q v = Some (Inr (total_results q), q, v)"
    by (rule EnrichedEventQuery_count_valid)
next
  assume first: "EnrichedEventQuery_count fuel env' q v = Some (Inr m, q', v')"
  from EnrichedEventQuery_count_success [OF first]
  show valid: "count_valid q'" and total: "total_results q' = m" by simp_all
  show "EnrichedEventQuery_count_calls (Suc k) fuel env' q v =
          Some (replicate (Suc k) (Inr m), q', v')"
    using first EnrichedEventQuery_count_calls_valid [OF valid, of k fuel env' v'] total by simp
  show "length (filter is_results_request (trace v')) \<le>
          Suc (length (filter is_results_request (trace v)))"
    using first by (rule EnrichedEventQuery_count_trace)
qed

theorem count_is_cached_witness:
  "Query_count_calls 3 (legacy_env 250) Query_init world0 =
     ([Inr 250, Inr 250, Inr 250],
      Query_init\<lparr>total_results := 250, count_valid := True\<rparr>,
      world0\<lparr>trace := [Request (GetSearch [])]\<rparr>)
   \<and> EnrichedEventQuery_count_calls 3 (Suc 0) (job_env (\<lambda>n. (3, 3)) 7)
        EnrichedEventQuery_init world0 =
     Some ([Inr 7, Inr 7, Inr 7],
           EnrichedEventQuery_init
             \<lparr>total_results := 7, count_valid := True, query_token := Some ''job-1'',
              submit_time := Some 0\<rparr>,
           \<lparr>trace = [Request (PostSearchJob \<lparr>body_rows = None, body_sort = None, body_query = None\<rparr>),
                     Request (GetJobStatus (Some ''job-1'')),
                     Request (GetJobResults (Some ''job-1'') None)],
            clock_reads = 1\<rparr>)
   \<and> Query_count (legacy_env 250) (Query_init\<lparr>total_results := 250, count_valid := True\<rparr>)
        (world0\<lparr>trace := [Request (GetSearch [])]\<rparr>) =
      (Inr 250, Query_init\<lparr>total_results := 250, count_valid := True\<rparr>,
       world0\<lparr>trace := [Request (GetSearch [])]\<rparr>)"
proof -
  let ?env = "legacy_env 250"
  let ?s' = "Query_init\<lparr>total_results := 250, count_valid := True\<rparr>"
  let ?w' = "world0\<lparr>trace := [Request (GetSearch [])]\<rparr> :: nat world"
  let ?jenv = "job_env (\<lambda>n. (3, 3)) 7"
  let ?q' = "EnrichedEventQuery_init
             \<lparr>total_results := 7, count_valid := True, query_token := Some ''job-1'',
              submit_time := Some 0\<rparr>"
  let ?v' = "\<lparr>trace = [Request (PostSearchJob \<lparr>body_rows = None, body_sort = None, body_query = None\<rparr>),
                     Request (GetJobStatus (Some ''job-1'')),
                     Request (GetJobResults (Some ''job-1'') None)],
            clock_reads = 1\<rparr> :: nat world"
  have first: "Query_count ?env Query_init world0 = (Inr 250, ?s', ?w')"
    by (simp add: Query_count_def Query_init_def world0_def legacy_env_def legacy_server_def
        prepare_query_def get_object_def get_default_def empty_response_def dict_get_def Let_def)
  have sq: "still_querying ?jenv EnrichedEventQuery_init world0 =
      (Inr False,
       EnrichedEventQuery_init\<lparr>query_token := Some ''job-1'', submit_time := Some 0\<rparr>,
       \<lparr>trace = [Request (PostSearchJob \<lparr>body_rows = None, body_sort = None, body_query = None\<rparr>),
                 Request (GetJobStatus (Some ''job-1''))],
        clock_reads = 1\<rparr>)"
    by (simp add: still_querying_def submit_def truthy_token_def EnrichedEventQuery_init_def
        world0_def job_env_def job_server_def post_object_def get_object_def time_ms_def
        get_query_parameters_def get_default_def empty_response_def poll_clock_def Let_def)
  have jfirst: "EnrichedEventQuery_count (Suc 0) ?jenv EnrichedEventQuery_init world0 =
                  Some (Inr 7, ?q', ?v')"
    unfolding EnrichedEventQuery_count_def wait_loop.simps sq
    by (simp add: EnrichedEventQuery_init_def job_env_def job_server_def get_object_def
        get_default_def empty_response_def Let_def)
  note inst = count_is_cached [where s = Query_init and env = ?env and w = world0 and n = 250
      and s' = ?s' and w' = ?w' and k = 2 and q = EnrichedEventQuery_init and env' = ?jenv
      and v = world0 and fuel = "Suc 0" and m = 7 and q' = ?q' and v' = ?v']
  have a: "Query_count_calls 3 ?env Query_init world0 = ([Inr 250, Inr 250, Inr 250], ?s', ?w')"
    using inst [THEN conjunct2, THEN conjunct1, THEN mp, OF first]
    by (simp add: numeral_3_eq_3)
  have b: "EnrichedEventQuery_count_calls 3 (Suc 0) ?jenv EnrichedEventQuery_init world0 =
             Some ([Inr 7, Inr 7, Inr 7], ?q', ?v')"
    using inst [THEN conjunct2, THEN conjunct2, THEN conjunct2, THEN mp, OF jfirst]
    by (simp add: numeral_3_eq_3)
  have valid: "count_valid ?s'" by simp
  have c: "Query_count ?env ?s' ?w' = (Inr 250, ?s', ?w')"
    using count_is_cached [where s = ?s' and env = ?env and w = ?w', THEN conjunct1, THEN mp, OF valid]
    by simp
  show ?thesis using a b c by simp
qed

section \<open>Implicit submission and the failures of the asynchronous query\<close>

lemma submit_unsubmitted:
  assumes "truthy_token s = None" and "submit env s w = (r, s', w')"
  shows "trace w' = trace w @ [Request (PostSearchJob (get_query_parameters env s))]"
    and "(\<exists>code. r = Inl (UpstreamError code) \<and> s' = s) \<or> (r = Inr () \<and> submit_time s' \<noteq> None)"
  using assms
  by (auto simp: submit_def post_object_def get_object_def time_ms_def Let_def
      split: sum.splits prod.splits)

lemma still_querying_grows:
  assumes "still_querying env s w = (r, s', w')"
  shows "\<exists>events. trace w' = trace w @ events"
proof -
  obtain r0 s0 w0 where pre:
    "(if truthy_token s = None then submit env s w else (Inr (), s, w)) = (r0, s0, w0)"
    by (cases "if truthy_token s = None then submit env s w else (Inr (), s, w)")
  have t0: "\<exists>events. trace w0 = trace w @ events"
    using pre submit_unsubmitted(1) [of s env w r0 s0 w0] by (auto split: if_splits)
  show ?thesis
    using assms t0 unfolding still_querying_def pre
    by (auto simp: get_object_def time_ms_def Let_def
        split: sum.splits prod.splits option.splits if_splits)
qed

lemma still_querying_submits_first:
  assumes "truthy_token s = None" and "still_querying env s w = (r, s', w')"
  shows "\<exists>rest. trace w' = trace w @ Request (PostSearchJob (get_query_parameters env s)) # rest"
proof -
  obtain r0 s0 w0 where pre: "submit env s w = (r0, s0, w0)"
    by (cases "submit env s w")
  note t0 = submit_unsubmitted(1) [OF assms(1) pre]
  show ?thesis
    using assms t0 unfolding still_querying_def
    by (auto simp: pre get_object_def time_ms_def Let_def
        split: sum.splits prod.splits option.splits if_splits)
qed

lemma still_querying_outcome:
  assumes "submitted_ok s" and "still_querying env s w = (r, s', w')"
  shows "submitted_ok s'" and "r = Inl e \<Longrightarrow> \<exists>code. e = UpstreamError code"
proof -
  obtain r0 s0 w0 where pre:
    "(if truthy_token s = None then submit env s w else (Inr (), s, w)) = (r0, s0, w0)"
    by (cases "if truthy_token s = None then submit env s w else (Inr (), s, w)")
  have p0: "(\<exists>code. r0 = Inl (UpstreamError code) \<and> s0 = s) \<or> (r0 = Inr () \<and> submit_time s0 \<noteq> None)"
    using pre submit_unsubmitted(2) [of s env w r0 s0 w0] assms(1)
    by (auto simp: submitted_ok_def split: if_splits)
  have both: "submitted_ok s' \<and> (r = Inl e \<longrightarrow> (\<exists>code. e = UpstreamError code))"
    using assms p0 unfolding still_querying_def pre
    by (auto simp: get_object_def time_ms_def Let_def submitted_ok_def truthy_token_def
        split: sum.splits prod.splits option.splits if_splits)
  from both show "submitted_ok s'" by simp
  from both show "r = Inl e \<Longrightarrow> \<exists>code. e = UpstreamError code" by simp
qed

lemma still_querying_errors:
  assumes "still_querying env s w = (r, s', w')"
  shows "r \<noteq> Inl (ApiError u) \<and> r \<noteq> Inl SdkTimeoutError"
proof -
  obtain r0 s0 w0 where pre:
    "(if truthy_token s = None then submit env s w else (Inr (), s, w)) = (r0, s0, w0)"
    by (cases "if truthy_token s = None then submit env s w else (Inr (), s, w)")
  have p0: "r0 \<noteq> Inl (ApiError u) \<and> r0 \<noteq> Inl SdkTimeoutError"
    using pre submit_unsubmitted(2) [of s env w r0 s0 w0] by (auto split: if_splits)
  show ?thesis
    using assms p0 unfolding still_querying_def pre
    by (auto simp: get_object_def time_ms_def Let_def
        split: sum.splits prod.splits option.splits if_splits)
qed

lemma wait_loop_grows:
  "wait_loop fuel env s w = Some (r, s', w') \<Longrightarrow> \<exists>events. trace w' = trace w @ events"
proof (induction fuel arbitrary: s w)
  case 0
  then show ?case by simp
next
  case (Suc fuel)
  obtain r1 s1 w1 where sq: "still_querying env s w = (r1, s1, w1)"
    by (cases "still_querying env s w")
  from still_querying_grows [OF sq] obtain ev1 where t1: "trace w1 = trace w @ ev1" ..
  show ?case
  proof (cases "r1 = Inr True")
    case True
    with Suc.prems sq have "wait_loop fuel env s1 (sleep w1) = Some (r, s', w')" by simp
    from Suc.IH [OF this] t1 show ?thesis by (auto simp: sleep_def)
  next
    case False
    with Suc.prems sq t1 show ?thesis by (cases r1) (auto split: if_splits)
  qed
qed

lemma wait_loop_submits_first:
  assumes "truthy_token s = None" and "wait_loop fuel env s w = Some (r, s', w')"
  shows "\<exists>rest. trace w' = trace w @ Request (PostSearchJob (get_query_parameters env s)) # rest"
proof (cases fuel)
  case 0
  with assms show ?thesis by simp
next
  case (Suc n)
  obtain r1 s1 w1 where sq: "still_querying env s w = (r1, s1, w1)"
    by (cases "still_querying env s w")
  from still_querying_submits_first [OF assms(1) sq] obtain rest1 where
    t1: "trace w1 = trace w @ Request (PostSearchJob (get_query_parameters env s)) # rest1" ..
  show ?thesis
  proof (cases "r1 = Inr True")
    case True
    with assms(2) Suc sq have "wait_loop n env s1 (sleep w1) = Some (r, s', w')" by simp
    from wait_loop_grows [OF this] t1 show ?thesis by (auto simp: sleep_def)
  next
    case False
    with assms(2) Suc sq t1 show ?thesis by (cases r1) (auto split: if_splits)
  qed
qed

lemma wait_loop_outcome:
  "submitted_ok s \<Longrightarrow> wait_loop fuel env s w = Some (r, s', w') \<Longrightarrow>
     submitted_ok s' \<and> (\<forall>e. r = Inl e \<longrightarrow> (\<exists>code. e = UpstreamError code))"
proof (induction fuel arbitrary: s w)
  case 0
  then show ?case by simp
next
  case (Suc fuel)
  obtain r1 s1 w1 where sq: "still_querying env s w = (r1, s1, w1)"
    by (cases "still_querying env s w")
  note o1 = still_querying_outcome [OF Suc.prems(1) sq]
  show ?case
  proof (cases "r1 = Inr True")
    case True
    with Suc.prems sq have "wait_loop fuel env s1 (sleep w1) = Some (r, s', w')" by simp
    from Suc.IH [OF o1(1) this] show ?thesis .
  next
    case False
    with Suc.prems sq o1 show ?thesis by (cases r1) (auto split: if_splits)
  qed
qed

lemma wait_loop_errors:
  "wait_loop fuel env s w = Some (r, s', w') \<Longrightarrow>
     r \<noteq> Inl (ApiError u) \<and> r \<noteq> Inl SdkTimeoutError"
proof (induction fuel arbitrary: s w)
  case 0
  then show ?case by simp
next
  case (Suc fuel)
  obtain r1 s1 w1 where sq: "still_querying env s w = (r1, s1, w1)"
    by (cases "still_querying env s w")
  note n1 = still_querying_errors [OF sq, of u]
  show ?case
  proof (cases "r1 = Inr True")
    case True
    with Suc.prems sq have "wait_loop fuel env s1 (sleep w1) = Some (r, s', w')" by simp
    from Suc.IH [OF this] show ?thesis .
  next
    case False
    with Suc.prems sq n1 show ?thesis by (cases r1) (auto split: if_splits)
  qed
qed

lemma fetch_for_grows:
  "fetch_for rows items current fetched w = (current', fetched', flag, w') \<Longrightarrow>
     \<exists>events. trace w' = trace w @ events"
proof (induction items arbitrary: current fetched w)
  case Nil
  then show ?case by simp
next
  case (Cons item items)
  show ?case
  proof (cases "rows \<noteq> 0 \<and> fetched + 1 \<ge> rows")
    case True
    with Cons.prems show ?thesis by (auto simp: yield_def Let_def)
  next
    case False
    with Cons.prems have "fetch_for rows items (current + 1) (fetched + 1) (yield w item) =
        (current', fetched', flag, w')"
      by (simp add: Let_def)
    from Cons.IH [OF this] show ?thesis by (auto simp: yield_def)
  qed
qed

lemma fetch_loop_outcome:
  "fetch_loop fuel env rows current fetched s w = Some (r, s', w') \<Longrightarrow>
     (\<exists>events. trace w' = trace w @ events) \<and>
     (\<forall>e. r = Inl e \<longrightarrow> (\<exists>code. e = UpstreamError code) \<or> e = PyTypeError)"
proof (induction fuel arbitrary: current fetched s w)
  case 0
  then show ?case by simp
next
  case (Suc fuel)
  let ?req = "GetJobResults (query_token s) (Some (current, batch_size s))"
  obtain r1 w1 where go: "get_object env w ?req = (r1, w1)"
    by (cases "get_object env w ?req")
  have t1: "trace w1 = trace w @ [Request ?req]"
    and e1: "\<And>e. r1 = Inl e \<Longrightarrow> \<exists>code. e = UpstreamError code"
    using go by (auto simp: get_object_def split: sum.splits)
  show ?case
  proof (cases r1)
    case (Inl e)
    with Suc.prems go t1 e1 show ?thesis by auto
  next
    case (Inr result)
    let ?s2 = "s\<lparr>total_results := get_default (num_available result) 0, count_valid := True\<rparr>"
    show ?thesis
    proof (cases "get_results result")
      case None
      with Suc.prems go Inr t1 show ?thesis by (auto simp: Let_def)
    next
      case (Some items)
      obtain c' f' flag w2 where ff: "fetch_for rows items current fetched w1 = (c', f', flag, w2)"
        by (cases "fetch_for rows items current fetched w1") auto
      from fetch_for_grows [OF ff] t1 obtain ev2 where t2: "trace w2 = trace w @ ev2" by auto
      show ?thesis
      proof (cases "flag \<and> \<not> c' \<ge> total_results ?s2")
        case True
        with Suc.prems go Inr Some ff
        have "fetch_loop fuel env rows c' f' ?s2 w2 = Some (r, s', w')"
          by (simp add: Let_def)
        from Suc.IH [OF this] t2 show ?thesis by auto
      next
        case False
        with Suc.prems go Inr Some ff t2 show ?thesis by (auto simp: Let_def)
      qed
    qed
  qed
qed

lemma EnrichedEventQuery_count_errors:
  assumes "EnrichedEventQuery_count fuel env s w = Some (r, s', w')"
  shows "r \<noteq> Inl (ApiError u) \<and> r \<noteq> Inl SdkTimeoutError"
proof (cases "count_valid s")
  case True
  with assms show ?thesis by (auto simp: EnrichedEventQuery_count_def)
next
  case False
  then obtain r1 s1 w1 where wl: "wait_loop fuel env s w = Some (r1, s1, w1)"
    using assms by (auto simp: EnrichedEventQuery_count_def split: option.splits)
  note n1 = wait_loop_errors [OF wl, of u]
  show ?thesis
    using assms False wl n1
    by (auto simp: EnrichedEventQuery_count_def get_object_def Let_def
        split: sum.splits if_splits prod.splits)
qed

lemma EnrichedEventQuery_count_unsubmitted:
  assumes "truthy_token s = None" and "\<not> count_valid s"
    and "EnrichedEventQuery_count fuel env s w = Some (r, s', w')"
  shows "\<exists>rest. trace w' = trace w @ Request (PostSearchJob (get_query_parameters env s)) # rest"
    and "r = Inl e \<Longrightarrow> (\<exists>code. e = UpstreamError code) \<or> e = PyTypeError"
proof -
  obtain r1 s1 w1 where wl: "wait_loop fuel env s w = Some (r1, s1, w1)"
    using assms by (auto simp: EnrichedEventQuery_count_def split: option.splits)
  from wait_loop_submits_first [OF assms(1) wl] obtain rest1 where
    t1: "trace w1 = trace w @ Request (PostSearchJob (get_query_parameters env s)) # rest1" ..
  have ok: "submitted_ok s" using assms(1) by (simp add: submitted_ok_def)
  note o1 = wait_loop_outcome [OF ok wl]
  show "\<exists>rest. trace w' = trace w @ Request (PostSearchJob (get_query_parameters env s)) # rest"
    using assms(2,3) wl t1
    by (auto simp: EnrichedEventQuery_count_def get_object_def Let_def
        split: sum.splits if_splits prod.splits)
  show "r = Inl e \<Longrightarrow> (\<exists>code. e = UpstreamError code) \<or> e = PyTypeError"
    using assms(2,3) wl o1
    by (auto simp: EnrichedEventQuery_count_def get_object_def Let_def
        split: sum.splits if_splits prod.splits)
qed

lemma EnrichedEventQuery_search_errors:
  assumes "EnrichedEventQuery_search fuel env s w start rows = Some (r, s', w')"
  shows "r \<noteq> Inl (ApiError u) \<and> r \<noteq> Inl SdkTimeoutError"
proof -
  obtain r0 s0 w0 where pre:
    "(if truthy_token s = None then submit env s w else (Inr (), s, w)) = (r0, s0, w0)"
    by (cases "if truthy_token s = None then submit env s w else (Inr (), s, w)")
  have p0: "r0 \<noteq> Inl (ApiError u) \<and> r0 \<noteq> Inl SdkTimeoutError"
    using pre submit_unsubmitted(2) [of s env w r0 s0 w0] by (auto split: if_splits)
  show ?thesis
  proof (cases r0)
    case (Inl e)
    with assms pre p0 show ?thesis by (auto simp: EnrichedEventQuery_search_def)
  next
    case (Inr u0)
    with assms pre obtain r1 s1 w1 where wl: "wait_loop fuel env s0 w0 = Some (r1, s1, w1)"
      by (auto simp: EnrichedEventQuery_search_def split: option.splits)
    note n1 = wait_loop_errors [OF wl, of u]
    show ?thesis
    proof (cases "\<exists>u1. r1 = Inr u1 \<and> \<not> timed_out s1")
      case True
      with assms pre Inr wl have "fetch_loop fuel env rows start 0 s1 w1 = Some (r, s', w')"
        by (auto simp: EnrichedEventQuery_search_def)
      from fetch_loop_outcome [OF this] show ?thesis by auto
    next
      case False
      with assms pre Inr wl n1 show ?thesis
        by (cases r1) (auto simp: EnrichedEventQuery_search_def split: if_splits)
    qed
  qed
qed

lemma EnrichedEventQuery_search_unsubmitted:
  assumes "truthy_token s = None"
    and "EnrichedEventQuery_search fuel env s w start rows = Some (r, s', w')"
  shows "\<exists>rest. trace w' = trace w @ Request (PostSearchJob (get_query_parameters env s)) # rest"
    and "r = Inl e \<Longrightarrow> (\<exists>code. e = UpstreamError code) \<or> e = PyTypeError"
proof -
  obtain r0 s0 w0 where pre: "submit env s w = (r0, s0, w0)"
    by (cases "submit env s w")
  note t0 = submit_unsubmitted(1) [OF assms(1) pre]
  note p0 = submit_unsubmitted(2) [OF assms(1) pre]
  have both: "(\<exists>rest. trace w' = trace w @ Request (PostSearchJob (get_query_parameters env s)) # rest)
      \<and> (r = Inl e \<longrightarrow> (\<exists>code. e = UpstreamError code) \<or> e = PyTypeError)"
  proof (cases r0)
    case (Inl e0)
    with assms pre t0 p0 show ?thesis by (auto simp: EnrichedEventQuery_search_def)
  next
    case (Inr u0)
    with p0 have ok: "submitted_ok s0" by (auto simp: submitted_ok_def)
    from Inr assms pre obtain r1 s1 w1 where wl: "wait_loop fuel env s0 w0 = Some (r1, s1, w1)"
      by (auto simp: EnrichedEventQuery_search_def split: option.splits)
    from wait_loop_grows [OF wl] t0 obtain rest1 where
      t1: "trace w1 = trace w @ Request (PostSearchJob (get_query_parameters env s)) # rest1"
      by auto
    note o1 = wait_loop_outcome [OF ok wl]
    show ?thesis
    proof (cases "\<exists>u1. r1 = Inr u1 \<and> \<not> timed_out s1")
      case True
      with assms pre Inr wl have "fetch_loop fuel env rows start 0 s1 w1 = Some (r, s', w')"
        by (auto simp: EnrichedEventQuery_search_def)
      from fetch_loop_outcome [OF this] t1 show ?thesis by auto
    next
      case False
      with assms pre Inr wl t1 o1 show ?thesis
        by (cases r1) (auto simp: EnrichedEventQuery_search_def split: if_splits)
    qed
  qed
  from both show "\<exists>rest. trace w' = trace w @ Request (PostSearchJob (get_query_parameters env s)) # rest"
    by simp
  from both show "r = Inl e \<Longrightarrow> (\<exists>code. e = UpstreamError code) \<or> e = PyTypeError"
    by simp
qed

text \<open>
  Claim C10. No call of \<^verbatim>\<open>_still_querying\<close>, \<^verbatim>\<open>_count\<close> or \<^verbatim>\<open>_search\<close> ends in
  the usage error, whatever the state of the query: the duplicate-submission error is
  reached only by calling \<^verbatim>\<open>_submit\<close> itself. On a query without a token, each of
  the three first sends the job-creation request (for \<^verbatim>\<open>_count\<close>: when no count is
  cached, as on a query that has never been submitted), and when it fails, it fails
  with what the transport raised or, for \<^verbatim>\<open>_count\<close> and \<^verbatim>\<open>_search\<close>, with the error
  of the timeout and null-result paths, never for want of a token.
\<close>

theorem unsubmitted_query_submits_first:
  "(still_querying env s w = (r, s', w') \<longrightarrow> r \<noteq> Inl (ApiError u))
   \<and> (EnrichedEventQuery_count fuel env s w = Some (rc, sc, wc) \<longrightarrow> rc \<noteq> Inl (ApiError u))
   \<and> (EnrichedEventQuery_search fuel env s w start rows = Some (rs, ss, ws) \<longrightarrow>
        rs \<noteq> Inl (ApiError u))
   \<and> (truthy_token s = None \<longrightarrow>
        (still_querying env s w = (r, s', w') \<longrightarrow>
           (\<exists>rest. trace w' =
              trace w @ Request (PostSearchJob (get_query_parameters env s)) # rest)
           \<and> (\<forall>e. r = Inl e \<longrightarrow> (\<exists>code. e = UpstreamError code)))
        \<and> (\<not> count_valid s \<and> EnrichedEventQuery_count fuel env s w = Some (rc, sc, wc) \<longrightarrow>
           (\<exists>rest. trace wc =
              trace w @ Request (PostSearchJob (get_query_parameters env s)) # rest)
           \<and> (\<forall>e. rc = Inl e \<longrightarrow> (\<exists>code. e = UpstreamError code) \<or> e = PyTypeError))
        \<and> (EnrichedEventQuery_search fuel env s w start rows = Some (rs, ss, ws) \<longrightarrow>
           (\<exists>rest. trace ws =
              trace w @ Request (PostSearchJob (get_query_parameters env s)) # rest)
           \<and> (\<forall>e. rs = Inl e \<longrightarrow> (\<exists>code. e = UpstreamError code) \<or> e = PyTypeError)))"
proof (intro conjI impI allI)
  assume "still_querying env s w = (r, s', w')"
  then show "r \<noteq> Inl (ApiError u)" using still_querying_errors by blast
next
  assume "EnrichedEventQuery_count fuel env s w = Some (rc, sc, wc)"
  then show "rc \<noteq> Inl (ApiError u)" using EnrichedEventQuery_count_errors by blast
next
  assume "EnrichedEventQuery_search fuel env s w start rows = Some (rs, ss, ws)"
  then show "rs \<noteq> Inl (ApiError u)" using EnrichedEventQuery_search_errors by blast
next
  assume a: "truthy_token s = None" "still_querying env s w = (r, s', w')"
  from a show "\<exists>rest. trace w' =
      trace w @ Request (PostSearchJob (get_query_parameters env s)) # rest"
    by (rule still_querying_submits_first)
  fix e assume "r = Inl e"
  with a show "\<exists>code. e = UpstreamError code"
    using still_querying_outcome(2) [of s env w r s' w' e] by (simp add: submitted_ok_def)
next
  assume a: "truthy_token s = None"
    "\<not> count_valid s \<and> EnrichedEventQuery_count fuel env s w = Some (rc, sc, wc)"
  from a show "\<exists>rest. trace wc =
      trace w @ Request (PostSearchJob (get_query_parameters env s)) # rest"
    using EnrichedEventQuery_count_unsubmitted(1) [of s fuel env w rc sc wc] by simp
  fix e assume "rc = Inl e"
  with a show "(\<exists>code. e = UpstreamError code) \<or> e = PyTypeError"
    using EnrichedEventQuery_count_unsubmitted(2) [of s fuel env w rc sc wc e] by simp
next
  assume a: "truthy_token s = None"
    "EnrichedEventQuery_search fuel env s w start rows = Some (rs, ss, ws)"
  from a show "\<exists>rest. trace ws =
      trace w @ Request (PostSearchJob (get_query_parameters env s)) # rest"
    by (rule EnrichedEventQuery_search_unsubmitted(1))
  fix e assume "rs = Inl e"
  with a show "(\<exists>code. e = UpstreamError code) \<or> e = PyTypeError"
    using EnrichedEventQuery_search_unsubmitted(2) [of s fuel env w start rows rs ss ws e] by simp
qed

theorem unsubmitted_query_submits_first_witness:
  "truthy_token EnrichedEventQuery_init = None
   \<and> \<not> count_valid EnrichedEventQuery_init
   \<and> fst (still_querying (job_env (\<lambda>n. (3, 3)) 2) EnrichedEventQuery_init world0) = Inr False
   \<and> map_option fst (EnrichedEventQuery_count (Suc 0) (job_env (\<lambda>n. (3, 3)) 2)
        EnrichedEventQuery_init world0) = Some (Inr 2)
   \<and> map_option (\<lambda>(r, s, w). (r, trace w))
        (EnrichedEventQuery_search (Suc 0) (job_env (\<lambda>n. (3, 3)) 2)
           EnrichedEventQuery_init world0 0 0) =
      Some (Inr (),
            [Request (PostSearchJob \<lparr>body_rows = None, body_sort = None, body_query = None\<rparr>),
             Request (GetJobStatus (Some ''job-1'')),
             Request (GetJobResults (Some ''job-1'') (Some (0, 100))),
             Yield 0, Yield 1])
   \<and> (\<exists>rest. trace (snd (snd (still_querying (job_env (\<lambda>n. (3, 3)) 2)
                                  EnrichedEventQuery_init world0))) =
         trace world0 @
         Request (PostSearchJob (get_query_parameters (job_env (\<lambda>n. (3, 3)) 2)
                                   EnrichedEventQuery_init)) # rest)"
proof -
  let ?env = "job_env (\<lambda>n. (3, 3)) 2"
  let ?post = "Request (PostSearchJob \<lparr>body_rows = None, body_sort = None, body_query = None\<rparr>)"
  let ?s1 = "EnrichedEventQuery_init\<lparr>query_token := Some ''job-1'', submit_time := Some 0\<rparr>"
  let ?w1 = "\<lparr>trace = [?post, Request (GetJobStatus (Some ''job-1''))], clock_reads = 1\<rparr> :: nat world"
  have tok: "truthy_token EnrichedEventQuery_init = None"
    by (simp add: truthy_token_def EnrichedEventQuery_init_def)
  have inv: "\<not> count_valid EnrichedEventQuery_init"
    by (simp add: EnrichedEventQuery_init_def)
  have sq: "still_querying ?env EnrichedEventQuery_init world0 = (Inr False, ?s1, ?w1)"
    by (simp add: still_querying_def submit_def truthy_token_def EnrichedEventQuery_init_def
        world0_def job_env_def job_server_def post_object_def get_object_def time_ms_def
        get_query_parameters_def get_default_def empty_response_def poll_clock_def Let_def)
  have cnt: "EnrichedEventQuery_count (Suc 0) ?env EnrichedEventQuery_init world0 =
      Some (Inr 2, ?s1\<lparr>total_results := 2, count_valid := True\<rparr>,
            ?w1\<lparr>trace := trace ?w1 @ [Request (GetJobResults (Some ''job-1'') None)]\<rparr>)"
    unfolding EnrichedEventQuery_count_def wait_loop.simps sq
    by (simp add: EnrichedEventQuery_init_def job_env_def job_server_def get_object_def
        get_default_def empty_response_def Let_def)
  have sb: "submit ?env EnrichedEventQuery_init world0 =
      (Inr (), ?s1, \<lparr>trace = [?post], clock_reads = 1\<rparr>)"
    by (simp add: submit_def truthy_token_def EnrichedEventQuery_init_def
        world0_def job_env_def job_server_def post_object_def get_object_def time_ms_def
        get_query_parameters_def empty_response_def poll_clock_def Let_def)
  have sq1: "still_querying ?env ?s1 \<lparr>trace = [?post], clock_reads = 1\<rparr> = (Inr False, ?s1, ?w1)"
    by (simp add: still_querying_def truthy_token_def EnrichedEventQuery_init_def
        job_env_def job_server_def get_object_def get_default_def empty_response_def Let_def)
  have srch: "EnrichedEventQuery_search (Suc 0) ?env EnrichedEventQuery_init world0 0 0 =
      Some (Inr (), ?s1\<lparr>total_results := 2, count_valid := True\<rparr>,
            \<lparr>trace = [?post, Request (GetJobStatus (Some ''job-1'')),
                      Request (GetJobResults (Some ''job-1'') (Some (0, 100))),
                      Yield 0, Yield 1],
             clock_reads = 1\<rparr>)"
    unfolding EnrichedEventQuery_search_def tok if_True if_False simp_thms sb prod.case sum.case
      wait_loop.simps sq1
    by (simp add: EnrichedEventQuery_init_def job_env_def job_server_def get_object_def
        get_default_def get_results_def empty_response_def yield_def Let_def numeral_2_eq_2)
  note inst = unsubmitted_query_submits_first [where s = EnrichedEventQuery_init and env = ?env
      and w = world0 and r = "Inr False" and s' = ?s1 and w' = ?w1,
      THEN conjunct2, THEN conjunct2, THEN conjunct2, THEN mp, OF tok,
      THEN conjunct1, THEN mp, OF sq, THEN conjunct1]
  have first: "\<exists>rest. trace (snd (snd (still_querying ?env EnrichedEventQuery_init world0))) =
         trace world0 @
         Request (PostSearchJob (get_query_parameters ?env EnrichedEventQuery_init)) # rest"
    using inst unfolding sq by simp
  show ?thesis
    using tok inv first unfolding sq cnt srch by simp
qed

text \<open>
  Claim C3. With \<^verbatim>\<open>timeout(100)\<close> and a status endpoint that always reports
  \<^verbatim>\<open>completed < contacted\<close> (here 0 of 5), \<^verbatim>\<open>_count\<close> and \<^verbatim>\<open>_search\<close> submit the job,
  poll once at 1 ms, sleep, poll again at 501 ms, mark the query timed out and then fail
  with the builtin \<^verbatim>\<open>TypeError\<close>, not with the timeout error of the SDK: the
  \<^verbatim>\<open>raise\<close> names the builtin \<^verbatim>\<open>TimeoutError\<close> and passes it a keyword argument. No
  run of either method, on any query and against any server, ends in the timeout error
  of the SDK.
\<close>

theorem timeout_raises_type_error:
  "EnrichedEventQuery_count (Suc (Suc fuel)) (job_env (\<lambda>n. (5, 0)) 7)
       (EnrichedEventQuery_timeout EnrichedEventQuery_init 100) world0 =
     Some (Inl PyTypeError,
           EnrichedEventQuery_init
             \<lparr>query_token := Some ''job-1'', timeout := 100, timed_out := True,
              submit_time := Some 0\<rparr>,
           \<lparr>trace = [Request (PostSearchJob \<lparr>body_rows = None, body_sort = None, body_query = None\<rparr>),
                     Request (GetJobStatus (Some ''job-1'')), Sleep,
                     Request (GetJobStatus (Some ''job-1''))],
            clock_reads = 3\<rparr>)
   \<and> EnrichedEventQuery_search (Suc (Suc fuel)) (job_env (\<lambda>n. (5, 0)) 7)
       (EnrichedEventQuery_timeout EnrichedEventQuery_init 100) world0 0 0 =
     Some (Inl PyTypeError,
           EnrichedEventQuery_init
             \<lparr>query_token := Some ''job-1'', timeout := 100, timed_out := True,
              submit_time := Some 0\<rparr>,
           \<lparr>trace = [Request (PostSearchJob \<lparr>body_rows = None, body_sort = None, body_query = None\<rparr>),
                     Request (GetJobStatus (Some ''job-1'')), Sleep,
                     Request (GetJobStatus (Some ''job-1''))],
            clock_reads = 3\<rparr>)
   \<and> EnrichedEventQuery_count fuel' env s w \<noteq> Some (Inl SdkTimeoutError, s', w')
   \<and> EnrichedEventQuery_search fuel' env s w start rows \<noteq> Some (Inl SdkTimeoutError, s', w')"
proof -
  let ?env = "job_env (\<lambda>n. (5, 0)) 7"
  let ?post = "Request (PostSearchJob \<lparr>body_rows = None, body_sort = None, body_query = None\<rparr>)"
  let ?status = "Request (GetJobStatus (Some ''job-1'')) :: nat event"
  let ?q = "EnrichedEventQuery_timeout EnrichedEventQuery_init 100"
  let ?q1 = "EnrichedEventQuery_init
               \<lparr>query_token := Some ''job-1'', timeout := 100, submit_time := Some 0\<rparr>"
  let ?q2 = "EnrichedEventQuery_init
               \<lparr>query_token := Some ''job-1'', timeout := 100, timed_out := True,
                submit_time := Some 0\<rparr>"
  let ?w0 = "\<lparr>trace = [?post], clock_reads = 1\<rparr> :: nat world"
  let ?w1 = "\<lparr>trace = [?post, ?status], clock_reads = 2\<rparr> :: nat world"
  let ?w2 = "\<lparr>trace = [?post, ?status, Sleep, ?status], clock_reads = 3\<rparr> :: nat world"
  have tok: "truthy_token ?q = None"
    by (simp add: truthy_token_def EnrichedEventQuery_timeout_def EnrichedEventQuery_init_def)
  have sb: "submit ?env ?q world0 = (Inr (), ?q1, ?w0)"
    by (simp add: submit_def truthy_token_def EnrichedEventQuery_timeout_def
        EnrichedEventQuery_init_def world0_def job_env_def job_server_def post_object_def
        get_object_def time_ms_def get_query_parameters_def empty_response_def poll_clock_def
        Let_def)
  have poll1': "still_querying ?env ?q1 ?w0 = (Inr True, ?q1, ?w1)"
    by (simp add: still_querying_def truthy_token_def EnrichedEventQuery_init_def
        job_env_def job_server_def get_object_def time_ms_def get_default_def
        empty_response_def poll_clock_def Let_def)
  have poll1: "still_querying ?env ?q world0 = (Inr True, ?q1, ?w1)"
    using poll1' unfolding still_querying_def [of ?env ?q] tok sb
    by (simp add: still_querying_def truthy_token_def EnrichedEventQuery_init_def)
  have poll2: "still_querying ?env ?q1 (sleep ?w1) = (Inr False, ?q2, ?w2)"
    by (simp add: still_querying_def truthy_token_def EnrichedEventQuery_init_def sleep_def
        job_env_def job_server_def get_object_def time_ms_def get_default_def
        empty_response_def poll_clock_def Let_def)
  have wait0: "wait_loop (Suc (Suc fuel)) ?env ?q world0 = Some (Inr (), ?q2, ?w2)"
    unfolding wait_loop.simps poll1 prod.case sum.case if_True poll2 by simp
  have wait1: "wait_loop (Suc (Suc fuel)) ?env ?q1 ?w0 = Some (Inr (), ?q2, ?w2)"
    unfolding wait_loop.simps poll1' prod.case sum.case if_True poll2 by simp
  have cnt: "EnrichedEventQuery_count (Suc (Suc fuel)) ?env ?q world0 =
               Some (Inl PyTypeError, ?q2, ?w2)"
    unfolding EnrichedEventQuery_count_def wait0
    by (simp add: EnrichedEventQuery_timeout_def EnrichedEventQuery_init_def)
  have srch: "EnrichedEventQuery_search (Suc (Suc fuel)) ?env ?q world0 0 0 =
               Some (Inl PyTypeError, ?q2, ?w2)"
    unfolding EnrichedEventQuery_search_def tok sb if_True simp_thms prod.case sum.case wait1
    by simp
  have nc: "EnrichedEventQuery_count fuel' env s w \<noteq> Some (Inl SdkTimeoutError, s', w')"
    using EnrichedEventQuery_count_errors [of fuel' env s w "Inl SdkTimeoutError" s' w'] by blast
  have ns: "EnrichedEventQuery_search fuel' env s w start rows \<noteq> Some (Inl SdkTimeoutError, s', w')"
    using EnrichedEventQuery_search_errors [of fuel' env s w start rows "Inl SdkTimeoutError" s' w']
    by blast
  show ?thesis using cnt srch nc ns by simp
qed

section \<open>Synchronous pagination\<close>

lemma count_yields_simps:
  "count_yields [] = 0"
  "count_yields (Yield item # events) = 1 + count_yields events"
  "count_yields (Request req # events) = count_yields events"
  "count_yields (Sleep # events) = count_yields events"
  "count_yields (xs @ ys) = count_yields xs + count_yields ys"
  "count_yields (map Yield items) = int (length items)"
  by (simp_all add: count_yields_def o_def)

lemma search_for_trace:
  "search_for rows items current numrows w = (current', numrows', flag, w') \<Longrightarrow>
     \<exists>ys. trace w' = trace w @ map Yield ys \<and> current' = current + int (length ys)
          \<and> clock_reads w' = clock_reads w \<and> (flag \<longrightarrow> ys = items)"
proof (induction items arbitrary: current numrows w)
  case Nil
  then show ?case by simp
next
  case (Cons item items)
  show ?case
  proof (cases "rows \<noteq> 0 \<and> numrows + 1 = rows")
    case True
    with Cons.prems have "trace w' = trace w @ map Yield [item]" "current' = current + int (length [item])"
      "clock_reads w' = clock_reads w" "\<not> flag"
      by (auto simp: yield_def Let_def)
    then show ?thesis by blast
  next
    case False
    with Cons.prems have "search_for rows items (current + 1) (numrows + 1) (yield w item) =
        (current', numrows', flag, w')"
      by (simp add: Let_def)
    from Cons.IH [OF this] obtain ys where
      ys: "trace w' = trace (yield w item) @ map Yield ys" "current' = current + 1 + int (length ys)"
        "clock_reads w' = clock_reads (yield w item)" "flag \<longrightarrow> ys = items"
      by auto
    then have "trace w' = trace w @ map Yield (item # ys)"
      "current' = current + int (length (item # ys))"
      "clock_reads w' = clock_reads w" "flag \<longrightarrow> item # ys = item # items"
      by (auto simp: yield_def)
    then show ?thesis by blast
  qed
qed

lemma search_for_no_limit:
  "search_for 0 items current numrows w =
     (current + int (length items), numrows + int (length items), True,
      w\<lparr>trace := trace w @ map Yield items\<rparr>)"
  by (induction items arbitrary: current numrows w) (simp_all add: yield_def Let_def)

lemma search_body_Stop:
  assumes "search_body env rows args current numrows s w = Stop r s' w'"
  shows "\<exists>ys. trace w' = trace w @ Request (GetSearch args) # map Yield ys"
proof -
  obtain r1 w1 where go: "get_object env w (GetSearch args) = (r1, w1)"
    by (cases "get_object env w (GetSearch args)")
  then have t1: "trace w1 = trace w @ [Request (GetSearch args)]"
    by (auto simp: get_object_def)
  show ?thesis
  proof (cases r1)
    case (Inl e)
    with assms go t1 show ?thesis by (auto simp: search_body_def)
  next
    case (Inr result)
    show ?thesis
    proof (cases "get_results result")
      case None
      with assms go t1 Inr show ?thesis by (auto simp: search_body_def Let_def)
    next
      case (Some items)
      obtain c' n' flag w2 where sf: "search_for rows items current numrows w1 = (c', n', flag, w2)"
        by (cases "search_for rows items current numrows w1") auto
      from search_for_trace [OF sf] t1 obtain ys where
        "trace w2 = trace w @ Request (GetSearch args) # map Yield ys" by auto
      with assms go Inr Some sf show ?thesis
        by (auto simp: search_body_def Let_def split: if_splits)
    qed
  qed
qed

lemma search_body_Continue:
  assumes "search_body env rows args current numrows s w = Continue args' current' numrows' s' w'"
  shows "\<exists>ys. trace w' = trace w @ Request (GetSearch args) # map Yield ys
           \<and> current' = current + int (length ys)
           \<and> args' = dict_set ''start'' (PInt (current' + 1)) args"
proof -
  obtain r1 w1 where go: "get_object env w (GetSearch args) = (r1, w1)"
    by (cases "get_object env w (GetSearch args)")
  then have t1: "trace w1 = trace w @ [Request (GetSearch args)]"
    by (auto simp: get_object_def)
  show ?thesis
  proof (cases r1)
    case (Inl e)
    with assms go show ?thesis by (auto simp: search_body_def)
  next
    case (Inr result)
    show ?thesis
    proof (cases "get_results result")
      case None
      with assms go Inr show ?thesis by (auto simp: search_body_def Let_def)
    next
      case (Some items)
      obtain c' n' flag w2 where sf: "search_for rows items current numrows w1 = (c', n', flag, w2)"
        by (cases "search_for rows items current numrows w1") auto
      from search_for_trace [OF sf] t1 obtain ys where
        "trace w2 = trace w @ Request (GetSearch args) # map Yield ys"
        "c' = current + int (length ys)" by auto
      with assms go Inr Some sf show ?thesis
        by (auto simp: search_body_def Let_def split: if_splits)
    qed
  qed
qed

lemma yields_then_request_split:
  "map Yield ys @ Request q # t = pre @ Request q' # post \<Longrightarrow>
     (pre = map Yield ys \<and> q' = q \<and> post = t) \<or>
     (\<exists>pre'. pre = map Yield ys @ Request q # pre' \<and> t = pre' @ Request q' # post)"
proof (induction ys arbitrary: pre)
  case Nil
  then show ?case by (cases pre) auto
next
  case (Cons y ys)
  then obtain pre1 where p: "pre = Yield y # pre1"
    by (cases pre) auto
  with Cons.prems have "map Yield ys @ Request q # t = pre1 @ Request q' # post" by simp
  from Cons.IH [OF this] p show ?case by auto
qed

lemma yields_no_request:
  "map Yield ys = pre @ Request q # post \<Longrightarrow> False"
proof (induction ys arbitrary: pre)
  case Nil
  then show ?case by simp
next
  case (Cons y ys)
  then show ?case by (cases pre) auto
qed

lemma search_loop_starts:
  "search_loop fuel env rows args current numrows s w = Some (r, s', w') \<Longrightarrow>
     \<exists>rest. trace w' = trace w @ Request (GetSearch args) # rest \<and>
       (\<forall>pre a post. rest = pre @ Request (GetSearch a) # post \<longrightarrow>
          dict_get a ''start'' = Some (PInt (current + count_yields pre + 1)))"
proof (induction fuel arbitrary: args current numrows s w)
  case 0
  then show ?case by simp
next
  case (Suc fuel)
  show ?case
  proof (cases "search_body env rows args current numrows s w")
    case (Stop r1 s1 w1)
    with Suc.prems have "w1 = w'" by simp
    with search_body_Stop [OF Stop] obtain ys where
      t: "trace w' = trace w @ Request (GetSearch args) # map Yield ys" by auto
    show ?thesis
      using t yields_no_request [of ys] by blast
  next
    case (Continue args1 c1 n1 s1 w1)
    with Suc.prems have run: "search_loop fuel env rows args1 c1 n1 s1 w1 = Some (r, s', w')"
      by simp
    from search_body_Continue [OF Continue] obtain ys where
      t1: "trace w1 = trace w @ Request (GetSearch args) # map Yield ys"
      and c1: "c1 = current + int (length ys)"
      and a1: "args1 = dict_set ''start'' (PInt (c1 + 1)) args" by auto
    from Suc.IH [OF run] obtain rest1 where
      t2: "trace w' = trace w1 @ Request (GetSearch args1) # rest1"
      and ih: "\<And>pre a post. rest1 = pre @ Request (GetSearch a) # post \<Longrightarrow>
          dict_get a ''start'' = Some (PInt (c1 + count_yields pre + 1))" by blast
    let ?rest = "map Yield ys @ Request (GetSearch args1) # rest1"
    have t: "trace w' = trace w @ Request (GetSearch args) # ?rest"
      using t1 t2 by simp
    have "dict_get a ''start'' = Some (PInt (current + count_yields pre + 1))"
      if split: "?rest = pre @ Request (GetSearch a) # post" for pre a post
    proof -
      from yields_then_request_split [OF split]
      consider "pre = map Yield ys" "GetSearch a = GetSearch args1"
        | pre' where "pre = map Yield ys @ Request (GetSearch args1) # pre'"
            "rest1 = pre' @ Request (GetSearch a) # post"
        by blast
      then show ?thesis
      proof cases
        case 1
        then show ?thesis
          by (simp add: a1 c1 dict_get_dict_set count_yields_simps)
      next
        case 2
        from ih [OF 2(2)] show ?thesis
          by (simp add: 2(1) c1 count_yields_simps)
      qed
    qed
    with t show ?thesis by blast
  qed
qed

lemma legacy_page:
  "search_body (legacy_env 250) 0 args current numrows s w =
     (let start = (case dict_get args ''start'' of Some (PInt i) \<Rightarrow> i | _ \<Rightarrow> 1);
          rows = (case dict_get args ''rows'' of Some (PInt n) \<Rightarrow> n | _ \<Rightarrow> 0);
          lo = nat (start - 1);
          items = [lo ..< min 250 (lo + nat rows)];
          current' = current + int (length items);
          s2 = s\<lparr>total_results := 250, count_valid := True\<rparr>;
          w2 = w\<lparr>trace := trace w @ Request (GetSearch args) # map Yield items\<rparr>
      in if current' \<ge> 250 then Stop (Inr ()) s2 w2
         else if items = [] then Stop (Inr ()) (s2\<lparr>total_results := current'\<rparr>) w2
         else Continue (dict_set ''start'' (PInt (current' + 1)) args) current'
                (numrows + int (length items)) s2 w2)"
  by (simp add: search_body_def legacy_env_def legacy_server_def get_object_def get_results_def
      get_default_def empty_response_def search_for_no_limit Let_def del: upt_rec_numeral)

lemma legacy_first_page: "search_body (legacy_env 250) 0 [(''rows'', PInt 100)] 0 0 s w =
   Continue [(''rows'', PInt 100), (''start'', PInt 101)] 100 100
     (s\<lparr>total_results := 250, count_valid := True\<rparr>)
     (w\<lparr>trace := trace w @ Request (GetSearch [(''rows'', PInt 100)]) # map Yield [0 ..< 100]\<rparr>)"
  unfolding legacy_page
  by (simp add: dict_get_def Let_def del: upt_rec_numeral)

lemma legacy_second_page: "search_body (legacy_env 250) 0 [(''rows'', PInt 100), (''start'', PInt 101)] 100 100 s w =
   Continue [(''rows'', PInt 100), (''start'', PInt 201)] 200 200
     (s\<lparr>total_results := 250, count_valid := True\<rparr>)
     (w\<lparr>trace := trace w @ Request (GetSearch [(''rows'', PInt 100), (''start'', PInt 101)]) #
         map Yield [100 ..< 200]\<rparr>)"
  unfolding legacy_page
  by (simp add: dict_get_def Let_def del: upt_rec_numeral)

lemma legacy_third_page: "search_body (legacy_env 250) 0 [(''rows'', PInt 100), (''start'', PInt 201)] 200 200 s w =
   Stop (Inr ())
     (s\<lparr>total_results := 250, count_valid := True\<rparr>)
     (w\<lparr>trace := trace w @ Request (GetSearch [(''rows'', PInt 100), (''start'', PInt 201)]) #
         map Yield [200 ..< 250]\<rparr>)"
  unfolding legacy_page
  by (simp add: dict_get_def Let_def del: upt_rec_numeral)

lemma legacy_args:
  "prepare_query (legacy_env 250) Query_init [(''rows'', PInt 100)] = [(''rows'', PInt 100)]"
  by (simp add: prepare_query_def legacy_env_def)

lemma legacy_run:
  "Query_search (Suc (Suc (Suc fuel))) (legacy_env 250) Query_init world0 0 0 =
     Some (Inr (), Query_init\<lparr>total_results := 250, count_valid := True\<rparr>,
           \<lparr>trace =
              Request (GetSearch [(''rows'', PInt 100)]) # map Yield [0 ..< 100] @
              Request (GetSearch [(''rows'', PInt 100), (''start'', PInt 101)]) #
                map Yield [100 ..< 200] @
              Request (GetSearch [(''rows'', PInt 100), (''start'', PInt 201)]) #
                map Yield [200 ..< 250],
            clock_reads = 0\<rparr>)"
proof -
  have b: "batch_size Query_init = 100" by (simp add: Query_init_def)
  have "Query_search (Suc (Suc (Suc fuel))) (legacy_env 250) Query_init world0 0 0 =
        search_loop (Suc (Suc (Suc fuel))) (legacy_env 250) 0 [(''rows'', PInt 100)] 0 0
          Query_init world0"
    unfolding Query_search_def b by (simp add: legacy_args)
  also have "\<dots> = Some (Inr (), Query_init\<lparr>total_results := 250, count_valid := True\<rparr>,
           \<lparr>trace =
              Request (GetSearch [(''rows'', PInt 100)]) # map Yield [0 ..< 100] @
              Request (GetSearch [(''rows'', PInt 100), (''start'', PInt 101)]) #
                map Yield [100 ..< 200] @
              Request (GetSearch [(''rows'', PInt 100), (''start'', PInt 201)]) #
                map Yield [200 ..< 250],
            clock_reads = 0\<rparr>)"
    unfolding search_loop.simps legacy_first_page legacy_second_page legacy_third_page step.case
    by (simp add: world0_def del: upt_rec_numeral)
  finally show ?thesis .
qed

lemma legacy_short:
  "Query_search (Suc (Suc 0)) (legacy_env 250) Query_init world0 0 0 = None"
proof -
  have b: "batch_size Query_init = 100" by (simp add: Query_init_def)
  have "Query_search (Suc (Suc 0)) (legacy_env 250) Query_init world0 0 0 =
        search_loop (Suc (Suc 0)) (legacy_env 250) 0 [(''rows'', PInt 100)] 0 0
          Query_init world0"
    unfolding Query_search_def b by (simp add: legacy_args)
  also have "\<dots> = None"
    unfolding search_loop.simps legacy_first_page legacy_second_page step.case by simp
  finally show ?thesis .
qed

text \<open>
  Claim C1. Against a search endpoint that holds 250 rows behind the 1-based
  \<^verbatim>\<open>start\<close> parameter, a fresh query (batch size 100) iterated from the caller's start 0
  sends exactly three page requests: the first for the caller's start 0, which the code
  sends without a \<^verbatim>\<open>start\<close> key, the second with \<^verbatim>\<open>start\<close> 101 and the third with
  \<^verbatim>\<open>start\<close> 201; it yields 100, 100 and 50 rows after them and stops (two passes of
  the loop do not finish). In general, for any server, any query and any caller start:
  the first request carries the arguments prepared from the caller's start, and every
  later request carries as \<^verbatim>\<open>start\<close> the caller's start plus the number of rows
  yielded before it, plus one.
\<close>

theorem one_based_continuation:
  "Query_search (Suc (Suc (Suc fuel))) (legacy_env 250) Query_init world0 0 0 =
     Some (Inr (), Query_init\<lparr>total_results := 250, count_valid := True\<rparr>,
           \<lparr>trace =
              Request (GetSearch [(''rows'', PInt 100)]) # map Yield [0 ..< 100] @
              Request (GetSearch [(''rows'', PInt 100), (''start'', PInt 101)]) #
                map Yield [100 ..< 200] @
              Request (GetSearch [(''rows'', PInt 100), (''start'', PInt 201)]) #
                map Yield [200 ..< 250],
            clock_reads = 0\<rparr>)
   \<and> Query_search (Suc (Suc 0)) (legacy_env 250) Query_init world0 0 0 = None
   \<and> (Query_search fuel' env s w start rows = Some (r, s', w') \<longrightarrow>
        (\<exists>rest. trace w' =
           trace w @
           Request (GetSearch (prepare_query env s
             (dict_set ''rows'' (PInt (batch_size s))
                (if start \<noteq> 0 then dict_set ''start'' (PInt start) [] else [])))) # rest)
        \<and> (\<forall>pre a post.
              pre \<noteq> [] \<and> trace w' = trace w @ pre @ Request (GetSearch a) # post \<longrightarrow>
              dict_get a ''start'' = Some (PInt (start + count_yields pre + 1))))"
proof (intro conjI impI allI)
  show "Query_search (Suc (Suc (Suc fuel))) (legacy_env 250) Query_init world0 0 0 =
     Some (Inr (), Query_init\<lparr>total_results := 250, count_valid := True\<rparr>,
           \<lparr>trace =
              Request (GetSearch [(''rows'', PInt 100)]) # map Yield [0 ..< 100] @
              Request (GetSearch [(''rows'', PInt 100), (''start'', PInt 101)]) #
                map Yield [100 ..< 200] @
              Request (GetSearch [(''rows'', PInt 100), (''start'', PInt 201)]) #
                map Yield [200 ..< 250],
            clock_reads = 0\<rparr>)"
    by (rule legacy_run)
  show "Query_search (Suc (Suc 0)) (legacy_env 250) Query_init world0 0 0 = None"
    by (rule legacy_short)
next
  let ?args = "prepare_query env s
             (dict_set ''rows'' (PInt (batch_size s))
                (if start \<noteq> 0 then dict_set ''start'' (PInt start) [] else []))"
  assume "Query_search fuel' env s w start rows = Some (r, s', w')"
  then have run: "search_loop fuel' env rows ?args start 0 s w = Some (r, s', w')"
    by (simp add: Query_search_def Let_def)
  from search_loop_starts [OF run] obtain rest where
    t: "trace w' = trace w @ Request (GetSearch ?args) # rest"
    and later: "\<And>pre a post. rest = pre @ Request (GetSearch a) # post \<Longrightarrow>
          dict_get a ''start'' = Some (PInt (start + count_yields pre + 1))"
    by blast
  from t show "\<exists>rest. trace w' = trace w @ Request (GetSearch ?args) # rest" ..
  fix pre a post
  assume "pre \<noteq> [] \<and> trace w' = trace w @ pre @ Request (GetSearch a) # post"
  then obtain e pre' where p: "pre = e # pre'"
    and eq: "trace w' = trace w @ pre @ Request (GetSearch a) # post"
    by (cases pre) auto
  from t eq p have e: "e = Request (GetSearch ?args)"
    and r: "rest = pre' @ Request (GetSearch a) # post" by simp_all
  from later [OF r] show "dict_get a ''start'' = Some (PInt (start + count_yields pre + 1))"
    by (simp add: p e count_yields_simps)
qed

theorem one_based_continuation_witness:
  "Query_search (Suc (Suc (Suc 0))) (legacy_env 250) Query_init world0 0 0 =
     Some (Inr (), Query_init\<lparr>total_results := 250, count_valid := True\<rparr>,
           \<lparr>trace =
              Request (GetSearch [(''rows'', PInt 100)]) # map Yield [0 ..< 100] @
              Request (GetSearch [(''rows'', PInt 100), (''start'', PInt 101)]) #
                map Yield [100 ..< 200] @
              Request (GetSearch [(''rows'', PInt 100), (''start'', PInt 201)]) #
                map Yield [200 ..< 250],
            clock_reads = 0\<rparr>)
   \<and> dict_get [(''rows'', PInt 100), (''start'', PInt 201)] ''start'' =
       Some (PInt (0 + count_yields
          (Request (GetSearch [(''rows'', PInt 100)]) # map Yield [0 ..< 100] @
           Request (GetSearch [(''rows'', PInt 100), (''start'', PInt 101)]) #
             map Yield [100 ..< (200::nat)]) + 1))
   \<and> count_yields
          (Request (GetSearch [(''rows'', PInt 100)]) # map Yield [0 ..< 100] @
           Request (GetSearch [(''rows'', PInt 100), (''start'', PInt 101)]) #
             map Yield [100 ..< (200::nat)]) = 200"
proof -
  let ?r1 = "Request (GetSearch [(''rows'', PInt 100)]) :: nat event"
  let ?r2 = "Request (GetSearch [(''rows'', PInt 100), (''start'', PInt 101)]) :: nat event"
  let ?a3 = "[(''rows'', PInt 100), (''start'', PInt 201)]"
  let ?pre = "?r1 # map Yield [0 ..< 100] @ ?r2 # map Yield [100 ..< 200]"
  let ?post = "map Yield [200 ..< 250] :: nat event list"
  let ?s' = "Query_init\<lparr>total_results := 250, count_valid := True\<rparr>"
  let ?w' = "\<lparr>trace = ?pre @ Request (GetSearch ?a3) # ?post, clock_reads = 0\<rparr> :: nat world"
  note inst = one_based_continuation [where fuel = 0 and fuel' = "Suc (Suc (Suc 0))"
      and env = "legacy_env 250" and s = Query_init and w = world0 and start = 0 and rows = 0
      and r = "Inr ()" and s' = ?s' and w' = ?w']
  have run: "Query_search (Suc (Suc (Suc 0))) (legacy_env 250) Query_init world0 0 0 =
               Some (Inr (), ?s', ?w')"
    using inst [THEN conjunct1] by simp
  have split: "?pre \<noteq> [] \<and> trace ?w' = trace world0 @ ?pre @ Request (GetSearch ?a3) # ?post"
    by (simp add: world0_def)
  have start3: "dict_get ?a3 ''start'' = Some (PInt (0 + count_yields ?pre + 1))"
    using inst [THEN conjunct2, THEN conjunct2, THEN mp, OF run, THEN conjunct2,
        THEN spec, THEN spec, THEN spec, THEN mp, OF split] .
  have n: "count_yields ?pre = 200"
    using start3 by (simp add: dict_get_def)
  show ?thesis using run start3 n by simp
qed

section \<open>Count drift\<close>

lemma search_body_empty_page:
  assumes "server env (trace w) (GetSearch args) = Inr result"
    and "get_results result = Some []"
    and "current < get_default (totalResults result) 0"
  shows "search_body env rows args current numrows s w =
           Stop (Inr ()) (s\<lparr>total_results := current, count_valid := True\<rparr>)
             (w\<lparr>trace := trace w @ [Request (GetSearch args)]\<rparr>)"
  using assms by (simp add: search_body_def get_object_def Let_def)

lemma yields_end_in_request:
  "xs @ Request q # map Yield ys = t @ [Request req] \<Longrightarrow> ys = [] \<and> t = xs \<and> req = q"
proof (cases ys rule: rev_cases)
  case Nil
  assume "xs @ Request q # map Yield ys = t @ [Request req]"
  with Nil have "xs @ [Request q] = t @ [Request req]" by simp
  with Nil show ?thesis by simp
next
  case (snoc ys' y)
  assume "xs @ Request q # map Yield ys = t @ [Request req]"
  with snoc have "(xs @ Request q # map Yield ys') @ [Yield y] = t @ [Request req]" by simp
  then have "Yield y = Request req" by (simp only: append1_eq_conv)
  then show ?thesis by simp
qed

lemma search_loop_last_page:
  "search_loop fuel env rows args current numrows s w = Some (r, s', w') \<Longrightarrow>
   trace w' = t @ [Request req] \<Longrightarrow>
   server env t req = Inr result \<Longrightarrow>
   get_results result = Some [] \<Longrightarrow>
   current + count_yields (drop (length (trace w)) t) < get_default (totalResults result) 0 \<Longrightarrow>
     r = Inr () \<and> count_valid s' \<and>
     total_results s' = current + count_yields (drop (length (trace w)) t)"
proof (induction fuel arbitrary: args current numrows s w)
  case 0
  then show ?case by simp
next
  case (Suc fuel)
  show ?case
  proof (cases "search_body env rows args current numrows s w")
    case (Stop r1 s1 w1)
    with Suc.prems(1) have same: "r1 = r" "s1 = s'" "w1 = w'" by simp_all
    from search_body_Stop [OF Stop] same obtain ys where
      "trace w' = trace w @ Request (GetSearch args) # map Yield ys" by auto
    with Suc.prems(2) have "trace w @ Request (GetSearch args) # map Yield ys = t @ [Request req]"
      by simp
    from yields_end_in_request [OF this] have t: "t = trace w" and req: "req = GetSearch args"
      by simp_all
    have c: "count_yields (drop (length (trace w)) t) = 0"
      by (simp add: t count_yields_simps)
    from Suc.prems(3,4,5) have "search_body env rows args current numrows s w =
           Stop (Inr ()) (s\<lparr>total_results := current, count_valid := True\<rparr>)
             (w\<lparr>trace := trace w @ [Request (GetSearch args)]\<rparr>)"
      unfolding t req by (intro search_body_empty_page) (simp_all add: count_yields_simps)
    with Stop same show ?thesis by (auto simp: c)
  next
    case (Continue args1 c1 n1 s1 w1)
    with Suc.prems(1) have run: "search_loop fuel env rows args1 c1 n1 s1 w1 = Some (r, s', w')"
      by simp
    from search_body_Continue [OF Continue] obtain ys where
      t1: "trace w1 = trace w @ Request (GetSearch args) # map Yield ys"
      and c1: "c1 = current + int (length ys)" by auto
    from search_loop_starts [OF run] obtain rest1 where
      t2: "trace w' = trace w1 @ Request (GetSearch args1) # rest1" by blast
    have "t = butlast (trace w')" using Suc.prems(2) by simp
    also have "\<dots> = trace w1 @ butlast (Request (GetSearch args1) # rest1)"
      unfolding t2 by (simp add: butlast_append)
    finally have t: "t = trace w1 @ butlast (Request (GetSearch args1) # rest1)" .
    have d1: "drop (length (trace w1)) t = butlast (Request (GetSearch args1) # rest1)"
      unfolding t by simp
    have d0: "drop (length (trace w)) t =
                Request (GetSearch args) # map Yield ys @ butlast (Request (GetSearch args1) # rest1)"
      unfolding t t1 by simp
    have cnt: "current + count_yields (drop (length (trace w)) t) =
                 c1 + count_yields (drop (length (trace w1)) t)"
      unfolding d0 d1 c1 by (simp add: count_yields_simps)
    from Suc.IH [OF run Suc.prems(2,3,4)] Suc.prems(5) cnt show ?thesis by simp
  qed
qed

text \<open>
  Claim C2. In any pass of the synchronous loop whose page is an empty list (not
  \<^verbatim>\<open>null\<close>) while the running count \<^verbatim>\<open>current\<close> is below the total the page
  reports, the loop stops and leaves \<^verbatim>\<open>_total_results\<close> equal to \<^verbatim>\<open>current\<close>, with
  the count valid. For a whole iteration: when the last request of \<^verbatim>\<open>_search\<close> was
  answered with such a page, the iteration ended normally, the cached total is the
  caller's start plus the number of rows yielded (the number of rows yielded when the
  caller starts at 0), and a following \<^verbatim>\<open>_count\<close> returns that number, sends nothing
  and changes nothing.
\<close>

theorem empty_page_clamps_total:
  "(server env (trace w) (GetSearch args) = Inr result \<and> get_results result = Some [] \<and>
    current < get_default (totalResults result) 0 \<longrightarrow>
      search_loop (Suc fuel) env rows args current numrows s w =
        Some (Inr (), s\<lparr>total_results := current, count_valid := True\<rparr>,
              w\<lparr>trace := trace w @ [Request (GetSearch args)]\<rparr>))
   \<and> (Query_search fuel env s w start rows = Some (r, s', w') \<and>
       trace w' = t @ [Request req] \<and> server env t req = Inr result \<and>
       get_results result = Some [] \<and>
       start + count_yields (drop (length (trace w)) t) < get_default (totalResults result) 0 \<longrightarrow>
         r = Inr () \<and> count_valid s' \<and>
         total_results s' = start + count_yields (drop (length (trace w)) (trace w')) \<and>
         Query_count env s' w' =
           (Inr (start + count_yields (drop (length (trace w)) (trace w'))), s', w'))"
proof (intro conjI impI)
  assume "server env (trace w) (GetSearch args) = Inr result \<and> get_results result = Some [] \<and>
    current < get_default (totalResults result) 0"
  then have h: "server env (trace w) (GetSearch args) = Inr result"
    "get_results result = Some []" "current < get_default (totalResults result) 0"
    by simp_all
  have "search_body env rows args current numrows s w =
           Stop (Inr ()) (s\<lparr>total_results := current, count_valid := True\<rparr>)
             (w\<lparr>trace := trace w @ [Request (GetSearch args)]\<rparr>)"
    using h by (rule search_body_empty_page)
  then show "search_loop (Suc fuel) env rows args current numrows s w =
        Some (Inr (), s\<lparr>total_results := current, count_valid := True\<rparr>,
              w\<lparr>trace := trace w @ [Request (GetSearch args)]\<rparr>)"
    by simp
next
  assume a: "Query_search fuel env s w start rows = Some (r, s', w') \<and>
       trace w' = t @ [Request req] \<and> server env t req = Inr result \<and>
       get_results result = Some [] \<and>
       start + count_yields (drop (length (trace w)) t) < get_default (totalResults result) 0"
  let ?args = "prepare_query env s
             (dict_set ''rows'' (PInt (batch_size s))
                (if start \<noteq> 0 then dict_set ''start'' (PInt start) [] else []))"
  from a have run: "search_loop fuel env rows ?args start 0 s w = Some (r, s', w')"
    by (simp add: Query_search_def Let_def)
  from a have tr: "trace w' = t @ [Request req]" by simp
  from a search_loop_last_page [OF run tr, of result]
  have res: "r = Inr ()" "count_valid s'"
    "total_results s' = start + count_yields (drop (length (trace w)) t)"
    by simp_all
  have same: "count_yields (drop (length (trace w)) (trace w')) =
                count_yields (drop (length (trace w)) t)"
  proof -
    have "count_yields (drop n [Request req :: 'a event]) = 0" for n
      by (cases n) (simp_all add: count_yields_simps)
    then show ?thesis unfolding tr by (simp add: count_yields_simps)
  qed
  show "r = Inr ()" by (rule res)
  show "count_valid s'" by (rule res)
  show total: "total_results s' = start + count_yields (drop (length (trace w)) (trace w'))"
    using res(3) same by simp
  show "Query_count env s' w' =
           (Inr (start + count_yields (drop (length (trace w)) (trace w'))), s', w')"
    using res(2) total by (simp add: Query_count_def)
qed

theorem empty_page_clamps_total_witness:
  "Query_search (Suc (Suc (Suc 0))) (drifting_env 5 3) (Query_init\<lparr>batch_size := 2\<rparr>) world0 0 0 =
     Some (Inr (), Query_init\<lparr>batch_size := 2, total_results := 3, count_valid := True\<rparr>,
           \<lparr>trace = [Request (GetSearch [(''rows'', PInt 2)]), Yield 0, Yield 1,
                     Request (GetSearch [(''rows'', PInt 2), (''start'', PInt 3)]), Yield 2,
                     Request (GetSearch [(''rows'', PInt 2), (''start'', PInt 4)])],
            clock_reads = 0\<rparr>)
   \<and> server (drifting_env 5 3)
         [Request (GetSearch [(''rows'', PInt 2)]), Yield 0, Yield 1,
          Request (GetSearch [(''rows'', PInt 2), (''start'', PInt 3)]), Yield 2]
         (GetSearch [(''rows'', PInt 2), (''start'', PInt 4)]) =
       Inr (empty_response\<lparr>totalResults := Some 5, results := Rows []\<rparr>)
   \<and> Query_count (drifting_env 5 3)
         (Query_init\<lparr>batch_size := 2, total_results := 3, count_valid := True\<rparr>)
         \<lparr>trace = [Request (GetSearch [(''rows'', PInt 2)]), Yield 0, Yield 1,
                   Request (GetSearch [(''rows'', PInt 2), (''start'', PInt 3)]), Yield 2,
                   Request (GetSearch [(''rows'', PInt 2), (''start'', PInt 4)])],
          clock_reads = 0\<rparr> =
       (Inr 3, Query_init\<lparr>batch_size := 2, total_results := 3, count_valid := True\<rparr>,
        \<lparr>trace = [Request (GetSearch [(''rows'', PInt 2)]), Yield 0, Yield 1,
                  Request (GetSearch [(''rows'', PInt 2), (''start'', PInt 3)]), Yield 2,
                  Request (GetSearch [(''rows'', PInt 2), (''start'', PInt 4)])],
         clock_reads = 0\<rparr>)"
proof -
  let ?env = "drifting_env 5 3"
  let ?q = "Query_init\<lparr>batch_size := 2\<rparr>"
  let ?q' = "Query_init\<lparr>batch_size := 2, total_results := 3, count_valid := True\<rparr>"
  let ?t = "[Request (GetSearch [(''rows'', PInt 2)]), Yield 0, Yield 1,
             Request (GetSearch [(''rows'', PInt 2), (''start'', PInt 3)]), Yield 2] :: nat event list"
  let ?req = "GetSearch [(''rows'', PInt 2), (''start'', PInt 4)]"
  let ?w' = "\<lparr>trace = ?t @ [Request ?req], clock_reads = 0\<rparr> :: nat world"
  let ?result = "empty_response\<lparr>totalResults := Some 5, results := Rows []\<rparr> :: nat response"
  have run: "Query_search (Suc (Suc (Suc 0))) ?env ?q world0 0 0 = Some (Inr (), ?q', ?w')"
    by (simp add: Query_search_def search_body_def prepare_query_def drifting_env_def
        legacy_server_def get_object_def get_results_def get_default_def empty_response_def
        Query_init_def world0_def dict_get_def yield_def Let_def)
  have srv: "server ?env ?t ?req = Inr ?result"
    by (simp add: drifting_env_def legacy_server_def dict_get_def empty_response_def Let_def)
  have hyp: "Query_search (Suc (Suc (Suc 0))) ?env ?q world0 0 0 = Some (Inr (), ?q', ?w') \<and>
       trace ?w' = ?t @ [Request ?req] \<and> server ?env ?t ?req = Inr ?result \<and>
       get_results ?result = Some [] \<and>
       0 + count_yields (drop (length (trace (world0 :: nat world))) ?t)
         < get_default (totalResults ?result) 0"
    using run srv
    by (simp add: get_results_def get_default_def empty_response_def world0_def count_yields_def)
  have clamp: "Query_count ?env ?q' ?w' =
      (Inr (0 + count_yields (drop (length (trace (world0 :: nat world))) (trace ?w'))), ?q', ?w')"
    using empty_page_clamps_total [where env = ?env and s = ?q and w = world0 and start = 0
        and rows = 0 and fuel = "Suc (Suc (Suc 0))" and r = "Inr ()" and s' = ?q' and w' = ?w'
        and t = ?t and req = ?req and result = ?result,
        THEN conjunct2, THEN mp, OF hyp]
    by simp
  have n: "0 + count_yields (drop (length (trace (world0 :: nat world))) (trace ?w')) = 3"
    by (simp add: world0_def count_yields_def)
  show ?thesis using run srv clamp unfolding n by simp
qed

end
